theory Spec2Isabelle
  imports Main "HOL-Library.Word"
begin

section \<open>Worker parameters (\<open>async_core::worker\<close>)\<close>

text \<open>
  \<open>enum class poll\<close> and \<open>enum class delay\<close> have the underlying type \<open>int\<close>; an object
  of such a type can hold any value of the underlying type, not only an enumerator. The
  model keeps the underlying 32-bit value, and names the enumerators.
\<close>

type_synonym poll = "32 word"
type_synonym delay = "32 word"
type_synonym size_t = "64 word"

definition disabled :: poll where "disabled = 0"
definition poll_one :: poll where "poll_one = 1"
definition poll_all :: poll where "poll_all = 2"
definition run_one :: poll where "run_one = 3"

definition delay_no_delay :: delay where "delay_no_delay = 0"
definition delay_yield :: delay where "delay_yield = 1"
definition delay_sleep :: delay where "delay_sleep = 2"

text \<open>\<open>default_delay\<close>: 500 milliseconds, in nanoseconds.\<close>

definition default_delay :: "64 word" where
  "default_delay = 500 * 1000 * 1000"

record parameters =
  self_poll_policy :: poll
  children_poll_policy :: poll
  delay_rounds :: size_t
  delay_policy :: delay
  delay_value :: "64 word"

text \<open>The default member initialisers of \<open>struct parameters\<close>.\<close>

definition default_parameters :: parameters where
  "default_parameters =
     \<lparr> self_poll_policy = poll_all,
       children_poll_policy = poll_one,
       delay_rounds = 1,
       delay_policy = delay_yield,
       delay_value = default_delay \<rparr>"

text \<open>\<open>async_core::fixed_worker_parameters_\<close> (names lose their trailing underscore here): three switches and one comparison.\<close>

definition fix_self_poll :: "parameters \<Rightarrow> parameters" where
  "fix_self_poll p =
     (if self_poll_policy p = disabled then p
      else if self_poll_policy p = poll_one then p
      else if self_poll_policy p = poll_all then p
      else if self_poll_policy p = run_one then p
      else p\<lparr>self_poll_policy := self_poll_policy default_parameters\<rparr>)"

definition fix_children_poll :: "parameters \<Rightarrow> parameters" where
  "fix_children_poll p =
     (if children_poll_policy p = disabled then p
      else if children_poll_policy p = poll_one then p
      else if children_poll_policy p = poll_all then p
      else if children_poll_policy p = run_one then p
      else p\<lparr>children_poll_policy := children_poll_policy default_parameters\<rparr>)"

definition fix_delay_rounds :: "parameters \<Rightarrow> parameters" where
  "fix_delay_rounds p =
     (if delay_rounds p < 1 then p\<lparr>delay_rounds := delay_rounds default_parameters\<rparr> else p)"

definition fix_delay_policy :: "parameters \<Rightarrow> parameters" where
  "fix_delay_policy p =
     (if delay_policy p = delay_no_delay then p
      else if delay_policy p = delay_yield then p
      else if delay_policy p = delay_sleep then p
      else p\<lparr>delay_policy := delay_policy default_parameters\<rparr>)"

definition fixed_worker_parameters :: "parameters \<Rightarrow> parameters" where
  "fixed_worker_parameters p =
     fix_delay_policy (fix_delay_rounds (fix_children_poll (fix_self_poll p)))"

section \<open>The tree builder (\<open>async_core::context_tree\<close>)\<close>

datatype error =
    Out_Of_Range string
  | Invalid_Argument string
  | Logic_Error string
  | System_Error "32 word"
  | Coroutine_Expired

record tree_node =
  parent_id :: nat
  children_count :: nat
  worker_parameters :: "parameters list"
  concurrency_hint :: "32 word option"
  enabled :: bool

text \<open>\<open>context_tree\<close> has the single member \<open>nodes_\<close>, a vector of nodes.\<close>

type_synonym context_tree = "tree_node list"

text \<open>\<open>std::vector::at\<close> throws \<open>std::out_of_range\<close> outside the vector.\<close>

definition vector_at :: "'a list \<Rightarrow> nat \<Rightarrow> error + 'a" where
  "vector_at xs i = (if i < length xs then Inr (xs ! i) else Inl (Out_Of_Range ''vector''))"

definition add_context ::
  "context_tree \<Rightarrow> nat \<Rightarrow> nat \<Rightarrow> bool \<Rightarrow> 32 word option \<Rightarrow> error + (nat \<times> context_tree)" where
  "add_context t parent workers_count en hint =
     (let new_id = length t in
      if parent \<ge> new_id \<and> parent \<noteq> 0
      then Inl (Out_Of_Range ''Incorrect context parent id'')
      else
        let t1 = t @ [\<lparr> parent_id = parent, children_count = 0,
                         worker_parameters = replicate workers_count default_parameters,
                         concurrency_hint = hint, enabled = en \<rparr>];
            t2 = (if new_id \<noteq> 0
                  then t1[parent := (t1 ! parent)
                            \<lparr>children_count := children_count (t1 ! parent) + 1\<rparr>]
                  else t1)
        in Inr (new_id, t2))"

definition set_worker_parameters ::
  "context_tree \<Rightarrow> nat \<Rightarrow> nat \<Rightarrow> parameters \<Rightarrow> error + context_tree" where
  "set_worker_parameters t context_id worker ps =
     (case vector_at t context_id of
        Inl e \<Rightarrow> Inl e
      | Inr n \<Rightarrow>
          (case vector_at (worker_parameters n) worker of
             Inl e \<Rightarrow> Inl e
           | Inr _ \<Rightarrow>
               Inr (t[context_id := n\<lparr>worker_parameters :=
                        (worker_parameters n)[worker := fixed_worker_parameters ps]\<rparr>])))"

definition add_worker ::
  "context_tree \<Rightarrow> nat \<Rightarrow> parameters \<Rightarrow> error + (nat \<times> context_tree)" where
  "add_worker t context_id ps =
     (case vector_at t context_id of
        Inl e \<Rightarrow> Inl e
      | Inr n \<Rightarrow>
          (let worker_id = length (worker_parameters n) in
           Inr (worker_id,
                t[context_id := n\<lparr>worker_parameters :=
                    worker_parameters n @ [fixed_worker_parameters ps]\<rparr>])))"

text \<open>The overload of \<open>add_worker\<close> without parameters: \<open>emplace_back()\<close>.\<close>

definition add_worker_default :: "context_tree \<Rightarrow> nat \<Rightarrow> error + (nat \<times> context_tree)" where
  "add_worker_default t context_id =
     (case vector_at t context_id of
        Inl e \<Rightarrow> Inl e
      | Inr n \<Rightarrow>
          (let worker_id = length (worker_parameters n) in
           Inr (worker_id,
                t[context_id := n\<lparr>worker_parameters :=
                    worker_parameters n @ [default_parameters]\<rparr>])))"

section \<open>The scheduler (\<open>async_core\<close>)\<close>

datatype state = idle | starting | running | stopping

text \<open>
  What a task, or the exception handler, may throw: an object of a class derived from
  \<open>std::exception\<close> (with its \<open>what()\<close>), or anything else. The exception handler is a
  \<open>std::function<void (const std::exception &)>\<close>, possibly empty (\<open>None\<close>); called
  with an exception it returns (\<open>None\<close>) or throws.
\<close>

datatype exn = Std_Exception string | Other_Exception

type_synonym exception_handler_type = "string \<Rightarrow> exn option"

text \<open>
  Of a \<open>boost::asio::io_context\<close> the scheduler itself touches the concurrency hint
  it was constructed with and the stopped flag. A \<open>node *\<close> and a pointer to a node's
  \<open>io_context_\<close> are the node's index in the node array; a \<open>std::thread\<close> is the node
  and the worker slot it was started for.
\<close>

record io_context =
  hint :: "32 word option"
  stopped :: bool

datatype thread = Worker_Thread nat nat

text \<open>
  \<open>async_core::node\<close>. The members \<open>worker_parameters_\<close> and \<open>enabled_\<close> are called
  \<open>n_worker_parameters\<close> and \<open>n_enabled\<close>, apart from those of the tree builder's node.
\<close>

record node =
  io_ctx :: io_context
  children_ptrs :: "nat list"
  workers :: "thread list"
  work_guard :: bool
  n_worker_parameters :: "parameters list"
  n_enabled :: bool

text \<open>
  What the scheduler does to the world outside its own members is logged: construction
  and destruction of nodes, the mutexes, every store to \<open>state_\<close> (with the value it
  replaces), work guards, threads.
\<close>

datatype mutex = Stop_Mutex | Join_Mutex

datatype event =
    Construct_Node nat
  | Destroy_Node nat
  | Free_Storage
  | Acquire mutex
  | Release mutex
  | Store_State state state
  | Pin nat
  | Launch nat nat
  | Unpin nat
  | Stop_Io nat
  | Join_Thread nat nat

subsection \<open>\<open>node_array\<close>\<close>

text \<open>Both constructors of \<open>node\<close>: with the concurrency hint and without it.\<close>

definition new_node :: "tree_node \<Rightarrow> node" where
  "new_node n =
     \<lparr> io_ctx = \<lparr> hint = concurrency_hint n, stopped = False \<rparr>,
       children_ptrs = [],
       workers = [],
       work_guard = False,
       n_worker_parameters = worker_parameters n,
       n_enabled = (if enabled n then True else False) \<rparr>"

text \<open>
  \<open>delete_nodes_\<close>: \<^verbatim>\<open>if (n > 0) do { --n; (*this)[n].~node(); } while (n > 0);\<close>, then the
  storage is freed if there is any.
\<close>

fun do_destroy :: "nat \<Rightarrow> event list" where
  "do_destroy 0 = []"
| "do_destroy (Suc n) = Destroy_Node n # (if n > 0 then do_destroy n else [])"

definition delete_nodes :: "nat \<Rightarrow> nat \<Rightarrow> event list" where
  "delete_nodes sz nodes_initialized =
     (if nodes_initialized > 0 then do_destroy nodes_initialized else [])
     @ (if sz > 0 then [Free_Storage] else [])"

text \<open>
  The loop of the constructor over the nodes of the tree. Its state is the nodes
  constructed so far (\<open>nodes_initialized\<close> is their number) and the log. The
  construction of the node with a given id throws what the first argument says, if
  anything; \<open>at(parent_id_)\<close> throws outside the array (of \<open>sz\<close> slots). The result is
  the exception with \<open>nodes_initialized\<close> at that moment, or the nodes. (A parent inside
  the array that is not constructed yet has no counterpart here: the builder never makes
  one, and the list update does nothing then.)
\<close>

fun construct_nodes ::
  "(nat \<Rightarrow> error option) \<Rightarrow> nat \<Rightarrow> tree_node list \<Rightarrow> node list \<times> event list
     \<Rightarrow> ((error \<times> nat) + node list) \<times> event list" where
  "construct_nodes throws sz [] (ns, ev) = (Inr ns, ev)"
| "construct_nodes throws sz (n # rest) (ns, ev) =
     (case throws (length ns) of
        Some e \<Rightarrow> (Inl (e, length ns), ev)
      | None \<Rightarrow>
          (let ns1 = ns @ [new_node n];
               ev1 = ev @ [Construct_Node (length ns)];
               current_id = length ns1 - 1
           in if parent_id n \<noteq> current_id
              then (if parent_id n < sz
                    then construct_nodes throws sz rest
                           (ns1[parent_id n := (ns1 ! parent_id n)
                                  \<lparr>children_ptrs := children_ptrs (ns1 ! parent_id n) @ [current_id]\<rparr>],
                            ev1)
                    else (Inl (Out_Of_Range ''Incorrect context id'', length ns1), ev1))
              else construct_nodes throws sz rest (ns1, ev1)))"

text \<open>The constructor: the loop in a \<open>try\<close>, and \<open>delete_nodes_\<close> and a rethrow in the \<open>catch\<close>.\<close>

definition node_array ::
  "(nat \<Rightarrow> error option) \<Rightarrow> context_tree \<Rightarrow> (error + node list) \<times> event list" where
  "node_array throws t =
     (case construct_nodes throws (length t) t ([], []) of
        (Inr ns, ev) \<Rightarrow> (Inr ns, ev)
      | (Inl (e, nodes_initialized), ev) \<Rightarrow>
          (Inl e, ev @ delete_nodes (length t) nodes_initialized))"

subsection \<open>The scheduler object\<close>

text \<open>
  The members \<open>state_\<close>, \<open>nodes_\<close>, \<open>joined_\<close> and \<open>exception_handler_\<close>, the log, and
  of the two mutexes what outlasts a call: whether a thread that waits inside
  \<open>join_workers_\<close> holds \<open>join_mutex_\<close>. (\<open>start\<close> and \<open>stop\<close> hold \<open>stop_mutex_\<close> from
  their first store to their last, so calls of the two from several threads happen one
  after the other; a call is one step here.)
\<close>

record async_core =
  core_state :: state
  nodes :: "node list"
  joined :: bool
  join_mutex_locked :: bool
  exception_handler :: "exception_handler_type option"
  trace :: "event list"

definition log :: "event \<Rightarrow> async_core \<Rightarrow> async_core" where
  "log e c = c\<lparr>trace := trace c @ [e]\<rparr>"

definition store_state :: "state \<Rightarrow> async_core \<Rightarrow> async_core" where
  "store_state s c = c\<lparr>core_state := s, trace := trace c @ [Store_State (core_state c) s]\<rparr>"

subsection \<open>\<open>order_nodes_\<close>\<close>

text \<open>
  The inner \<open>for\<close> over the children of the node under the iterator, and the \<open>while\<close>
  around it. The iterator \<open>ordered_it\<close> is the index \<open>i\<close>. The \<open>while\<close> has no test
  that the iterator is still inside the vector; where the source would read past the end
  its behaviour is undefined, and the model has no result (\<open>None\<close>).
\<close>

fun visit_children :: "nat list \<Rightarrow> nat list \<times> bool list \<Rightarrow> nat list \<times> bool list" where
  "visit_children [] (ordered, visited) = (ordered, visited)"
| "visit_children (child_id # rest) (ordered, visited) =
     (if \<not> visited ! child_id
      then visit_children rest (ordered @ [child_id], visited[child_id := True])
      else visit_children rest (ordered, visited))"

function order_loop :: "node list \<Rightarrow> nat list \<times> bool list \<Rightarrow> nat \<Rightarrow> nat list option" where
  "order_loop ns (ordered, visited) i =
     (if length ordered < length ns
      then (if i < length ordered
            then order_loop ns (visit_children (children_ptrs (ns ! (ordered ! i))) (ordered, visited))
                   (Suc i)
            else None)
      else Some ordered)"
  by pat_completeness auto

termination
  by (relation "measure (\<lambda>(ns, ov, i). length ns - i)") auto

definition order_nodes :: "node list \<Rightarrow> (error + nat list) option" where
  "order_nodes ns =
     (if ns = [] then Some (Inl (Out_Of_Range ''Incorrect context id''))
      else map_option Inr (order_loop ns ([0], (replicate (length ns) False)[0 := True]) 0))"

subsection \<open>\<open>start_workers_\<close>\<close>

text \<open>
  Constructing a \<open>std::thread\<close> throws \<open>std::system_error\<close> when the system cannot
  start another thread; the \<open>budget\<close> is the number of threads it can still start. The
  loops below are the \<open>for\<close> over the worker parameters of a node (\<open>worker\<close> counts the
  slots) and the \<open>for\<close> over the ordered nodes, from the last one to the first.
\<close>

definition resource_unavailable_try_again :: "32 word" where
  "resource_unavailable_try_again = 11"

fun emplace_workers ::
  "nat \<Rightarrow> nat \<Rightarrow> parameters list \<Rightarrow> nat \<Rightarrow> async_core \<Rightarrow> (error + nat) \<times> async_core" where
  "emplace_workers n worker [] budget c = (Inr budget, c)"
| "emplace_workers n worker (ps # rest) budget c =
     (if budget = 0 then (Inl (System_Error resource_unavailable_try_again), c)
      else emplace_workers n (Suc worker) rest (budget - 1)
             (log (Launch n worker)
                (c\<lparr>nodes := (nodes c)[n := (nodes c ! n)
                     \<lparr>workers := workers (nodes c ! n) @ [Worker_Thread n worker]\<rparr>]\<rparr>)))"

fun start_nodes :: "nat list \<Rightarrow> nat \<Rightarrow> async_core \<Rightarrow> (error + nat) \<times> async_core" where
  "start_nodes [] budget c = (Inr budget, c)"
| "start_nodes (n # rest) budget c =
     (let c1 = log (Pin n) (c\<lparr>nodes := (nodes c)[n := (nodes c ! n)\<lparr>work_guard := True\<rparr>]\<rparr>)
      in case emplace_workers n 0 (n_worker_parameters (nodes c1 ! n)) budget c1 of
           (Inl e, c2) \<Rightarrow> (Inl e, c2)
         | (Inr budget', c2) \<Rightarrow> start_nodes rest budget' c2)"

definition start_workers :: "nat \<Rightarrow> async_core \<Rightarrow> ((error + unit) \<times> async_core) option" where
  "start_workers budget c =
     (if nodes c = [] then Some (Inr (), c)
      else (case order_nodes (nodes c) of
              None \<Rightarrow> None
            | Some (Inl e) \<Rightarrow> Some (Inl e, c)
            | Some (Inr ordered_node_ptrs) \<Rightarrow>
                (case start_nodes (rev ordered_node_ptrs) budget c of
                   (Inl e, c1) \<Rightarrow> Some (Inl e, c1)
                 | (Inr _, c1) \<Rightarrow> Some (Inr (), c1))))"

subsection \<open>\<open>start\<close>, \<open>stop\<close>, \<open>join\<close>\<close>

text \<open>
  \<open>start\<close>: nothing on an empty node array; otherwise both mutexes are locked (the call
  waits as long as a joining thread holds the join mutex: no result here), the join
  mutex is released, \<open>state_\<close> becomes \<open>starting\<close>, and then \<open>running\<close>, or \<open>idle\<close> when
  \<open>start_workers_\<close> throws (the exception is rethrown). The guard releases the stop
  mutex on the way out.
\<close>

definition start :: "nat \<Rightarrow> async_core \<Rightarrow> ((error + unit) \<times> async_core) option" where
  "start budget c =
     (if nodes c = [] then Some (Inr (), c)
      else if join_mutex_locked c then None
      else
        (let c1 = log (Release Join_Mutex) (log (Acquire Join_Mutex) (log (Acquire Stop_Mutex) c));
             c2 = store_state starting c1
         in case start_workers budget c2 of
              None \<Rightarrow> None
            | Some (Inl e, c3) \<Rightarrow> Some (Inl e, log (Release Stop_Mutex) (store_state idle c3))
            | Some (Inr _, c3) \<Rightarrow> Some (Inr (), log (Release Stop_Mutex) (store_state running c3))))"

definition stop_workers :: "async_core \<Rightarrow> async_core" where
  "stop_workers c =
     c\<lparr>nodes := map (\<lambda>n. n\<lparr>work_guard := False, io_ctx := (io_ctx n)\<lparr>stopped := True\<rparr>\<rparr>) (nodes c),
       trace := trace c @ map Unpin [0..<length (nodes c)] @ map Stop_Io [0..<length (nodes c)]\<rparr>"

text \<open>
  \<open>join_workers_\<close>, in three pieces.
  \<^item> Entering: \<open>joined_.exchange(true)\<close>; if it was set already the function returns \<open>false\<close>
    at once, otherwise the join mutex is locked.
  \<^item> Leaving, when every \<open>worker.join()\<close> has returned: the worker vectors are cleared,
    \<open>joined_\<close> is reset, \<open>idle\<close> is stored, and the guard releases the join mutex.
  \<^item> \<open>std::thread::join\<close> throws \<open>std::system_error\<close> (resource deadlock would occur)
    when a thread joins itself, which happens when \<open>stop\<close> or \<open>join\<close> is called from a
    task that worker \<open>w\<close> of node \<open>n\<close> is running. Nothing catches it: the threads before
    that one have been joined and the vectors of the nodes before \<open>n\<close> cleared, \<open>joined_\<close>
    stays set, \<open>state_\<close> is not stored to, and the guard releases the mutex.
  A worker thread runs on its own. What the joins of a call meet is given to the model:
  all threads end; some thread never ends (the call does not return: no result); or the
  call is made from worker \<open>w\<close> of node \<open>n\<close> (if there is no such thread, the threads end).
\<close>

datatype join_outcome = Threads_End | Threads_Run | Join_Throws nat nat

definition resource_deadlock_would_occur :: "32 word" where
  "resource_deadlock_would_occur = 35"

definition join_events :: "node list \<Rightarrow> event list" where
  "join_events ns =
     concat (map (\<lambda>n. map (Join_Thread n) [0..<length (workers (ns ! n))]) [0..<length ns])"

definition join_workers_enter :: "async_core \<Rightarrow> (bool \<times> async_core) option" where
  "join_workers_enter c =
     (if \<not> joined c
      then (if join_mutex_locked c then None
            else Some (True, log (Acquire Join_Mutex) (c\<lparr>joined := True, join_mutex_locked := True\<rparr>)))
      else Some (False, c))"

definition join_workers_leave :: "async_core \<Rightarrow> async_core" where
  "join_workers_leave c =
     log (Release Join_Mutex)
       ((store_state idle
           (c\<lparr>joined := False,
              nodes := map (\<lambda>n. n\<lparr>workers := []\<rparr>) (nodes c),
              trace := trace c @ join_events (nodes c)\<rparr>))
        \<lparr>join_mutex_locked := False\<rparr>)"

definition join_workers_throw :: "nat \<Rightarrow> nat \<Rightarrow> async_core \<Rightarrow> async_core" where
  "join_workers_throw n w c =
     log (Release Join_Mutex)
       (c\<lparr>join_mutex_locked := False,
          nodes := take n (map (\<lambda>n. n\<lparr>workers := []\<rparr>) (nodes c)) @ drop n (nodes c),
          trace := trace c @ join_events (take n (nodes c)) @ map (Join_Thread n) [0..<w]\<rparr>)"

definition join_workers :: "join_outcome \<Rightarrow> async_core \<Rightarrow> ((error + bool) \<times> async_core) option" where
  "join_workers outcome c =
     (case join_workers_enter c of
        None \<Rightarrow> None
      | Some (False, c1) \<Rightarrow> Some (Inr False, c1)
      | Some (True, c1) \<Rightarrow>
          (if list_all (\<lambda>n. workers n = []) (nodes c1) then Some (Inr True, join_workers_leave c1)
           else (case outcome of
                   Threads_End \<Rightarrow> Some (Inr True, join_workers_leave c1)
                 | Threads_Run \<Rightarrow> None
                 | Join_Throws n w \<Rightarrow>
                     if n < length (nodes c1) \<and> w < length (workers (nodes c1 ! n))
                     then Some (Inl (System_Error resource_deadlock_would_occur),
                                join_workers_throw n w c1)
                     else Some (Inr True, join_workers_leave c1))))"

text \<open>
  \<open>stop\<close>: nothing on an empty node array; otherwise, under the stop mutex, the store
  of \<open>stopping\<close>, \<open>stop_workers_\<close> and \<open>join_workers_\<close>, whose result is dropped and whose
  exception leaves \<open>stop\<close>. \<open>join\<close> throws unless the state is \<open>running\<close> and
  \<open>join_workers_\<close> returns \<open>true\<close>.
\<close>

definition stop :: "join_outcome \<Rightarrow> async_core \<Rightarrow> ((error + unit) \<times> async_core) option" where
  "stop outcome c =
     (if nodes c = [] then Some (Inr (), c)
      else (case join_workers outcome
                   (stop_workers (store_state stopping (log (Acquire Stop_Mutex) c))) of
              None \<Rightarrow> None
            | Some (Inl e, c1) \<Rightarrow> Some (Inl e, log (Release Stop_Mutex) c1)
            | Some (Inr _, c1) \<Rightarrow> Some (Inr (), log (Release Stop_Mutex) c1)))"

definition join :: "join_outcome \<Rightarrow> async_core \<Rightarrow> ((error + unit) \<times> async_core) option" where
  "join outcome c =
     (if core_state c \<noteq> running
      then Some (Inl (Invalid_Argument ''Core is not joinable''), c)
      else (case join_workers outcome c of
              None \<Rightarrow> None
            | Some (Inl e, c1) \<Rightarrow> Some (Inl e, c1)
            | Some (Inr True, c1) \<Rightarrow> Some (Inr (), c1)
            | Some (Inr False, c1) \<Rightarrow> Some (Inl (Invalid_Argument ''Core is not joinable''), c1)))"

text \<open>
  The constructors: the node array from the tree, the exception handler if one is given,
  and \<open>start\<close> if \<open>start_immediately\<close>. An exception of the node array leaves no object.
  An exception of \<open>start\<close> unwinds the members: the node array is destroyed, and if a
  node holds a thread by then (a joinable \<open>std::thread\<close>), its destructor calls
  \<open>std::terminate\<close>; otherwise the exception leaves the constructor.
\<close>

datatype construction = Constructed async_core | Construction_Throws error | Terminate_Called

definition new_async_core ::
  "(nat \<Rightarrow> error option) \<Rightarrow> nat \<Rightarrow> context_tree \<Rightarrow> exception_handler_type option \<Rightarrow> bool
     \<Rightarrow> construction option" where
  "new_async_core throws budget t handler start_immediately =
     (case node_array throws t of
        (Inl e, ev) \<Rightarrow> Some (Construction_Throws e)
      | (Inr ns, ev) \<Rightarrow>
          (let c = \<lparr> core_state = idle, nodes = ns, joined = False, join_mutex_locked = False,
                     exception_handler = handler, trace = ev \<rparr>
           in if start_immediately
              then (case start budget c of
                      None \<Rightarrow> None
                    | Some (Inl e, c1) \<Rightarrow>
                        Some (if list_all (\<lambda>n. workers n = []) (nodes c1)
                              then Construction_Throws e else Terminate_Called)
                    | Some (Inr _, c1) \<Rightarrow> Some (Constructed c1))
              else Some (Constructed c)))"

subsection \<open>Use of a scheduler\<close>

text \<open>
  The calls that one scheduler receives, in the order in which they happen. A call of
  \<open>start\<close>, \<open>stop\<close> (the destructor is one) or \<open>join\<close> that runs to its end, normally or
  with an exception, is one step. A \<open>join\<close> on another thread that has to wait for the
  workers is two: \<open>Join_Begins\<close> is the call up to the wait inside \<open>join_workers_\<close> (or
  to its exception, when the state is not \<open>running\<close> or somebody is joining already), and
  \<open>Join_Ends\<close> is the rest of \<open>join_workers_\<close>, once the workers have ended; other calls
  can happen in between. A call that does not return ends the run without a result.
\<close>

datatype operation = Start nat | Stop join_outcome | Join join_outcome | Join_Begins | Join_Ends

fun run_operation :: "operation \<Rightarrow> async_core \<Rightarrow> async_core option" where
  "run_operation (Start budget) c = map_option snd (start budget c)"
| "run_operation (Stop outcome) c = map_option snd (stop outcome c)"
| "run_operation (Join outcome) c = map_option snd (join outcome c)"
| "run_operation Join_Begins c =
     (if core_state c \<noteq> running then Some c else map_option snd (join_workers_enter c))"
| "run_operation Join_Ends c = Some (if join_mutex_locked c then join_workers_leave c else c)"

fun run_operations :: "operation list \<Rightarrow> async_core \<Rightarrow> async_core option" where
  "run_operations [] c = Some c"
| "run_operations (x # xs) c =
     (case run_operation x c of None \<Rightarrow> None | Some c1 \<Rightarrow> run_operations xs c1)"

text \<open>The stores to \<open>state_\<close> in a log, as transitions (old value, new value).\<close>

fun stores :: "event list \<Rightarrow> (state \<times> state) list" where
  "stores [] = []"
| "stores (Store_State a b # ev) = (a, b) # stores ev"
| "stores (_ # ev) = stores ev"





text \<open>
  The invariant of the tree builder: node 0 is its own parent, every other node has a
  parent with a smaller id. A tree with a root without workers and one with the root and
  two levels below it serve as examples.
\<close>

definition tree_ok :: "context_tree \<Rightarrow> bool" where
  "tree_ok t =
     list_all (\<lambda>i. if i = 0 then parent_id (t ! i) = 0 else parent_id (t ! i) < i) [0..<length t]"

definition leaf :: "nat \<Rightarrow> nat \<Rightarrow> nat \<Rightarrow> tree_node" where
  "leaf parent children workers_count =
     \<lparr> parent_id = parent, children_count = children,
       worker_parameters = replicate workers_count default_parameters,
       concurrency_hint = None, enabled = True \<rparr>"

definition tree1 :: context_tree where
  "tree1 = [leaf 0 0 0]"

definition tree4 :: context_tree where
  "tree4 = [leaf 0 2 1, leaf 0 0 0, leaf 0 1 2, leaf 2 0 1]"

subsection \<open>Notions for the order of the nodes\<close>

text \<open>
  In a tree of the builder, the children of a node in the order in which they were
  added (ids are given in that order); the nodes below a node; and what
  \<open>start_workers_\<close> logs for one node: the work guard, then one thread per worker slot.
\<close>

definition children_of :: "context_tree \<Rightarrow> nat \<Rightarrow> nat list" where
  "children_of t p = filter (\<lambda>i. parent_id (t ! i) = p) [1..<length t]"

inductive descends :: "context_tree \<Rightarrow> nat \<Rightarrow> nat \<Rightarrow> bool" for t :: context_tree where
  child: "0 < d \<Longrightarrow> d < length t \<Longrightarrow> parent_id (t ! d) = n \<Longrightarrow> descends t d n"
| below: "0 < d \<Longrightarrow> d < length t \<Longrightarrow> descends t (parent_id (t ! d)) n \<Longrightarrow> descends t d n"

definition start_block :: "context_tree \<Rightarrow> nat \<Rightarrow> event list" where
  "start_block t n = Pin n # map (Launch n) [0..<length (worker_parameters (t ! n))]"

text \<open>
  The invariant of the \<open>while\<close> of \<open>order_nodes_\<close> on the node array \<open>ns\<close> of the tree
  \<open>t\<close>: no node is listed twice, \<open>visited\<close> marks the listed nodes, the list is the
  root followed by the children of its first \<open>i\<close> entries, and every entry but the root
  stands after its parent.
\<close>

definition order_inv :: "context_tree \<Rightarrow> nat list \<times> bool list \<Rightarrow> nat \<Rightarrow> bool" where
  "order_inv t ov i =
     (case ov of (ordered, visited) \<Rightarrow>
        distinct ordered
      \<and> set ordered \<subseteq> {0..<length t}
      \<and> length visited = length t
      \<and> (\<forall>j<length t. visited ! j = (j \<in> set ordered))
      \<and> i \<le> length ordered
      \<and> ordered = 0 # concat (map (children_of t) (take i ordered))
      \<and> (\<forall>k<length ordered. ordered ! k \<noteq> 0 \<longrightarrow> (\<exists>j<k. ordered ! j = parent_id (t ! (ordered ! k)))))"

section \<open>The worker loop\<close>

text \<open>
  \<open>poll_method_type\<close>: a pointer to one of the member functions \<open>poll_one\<close>, \<open>poll\<close>,
  \<open>run_one\<close>, \<open>run\<close> of \<open>io_context\<close>, or \<open>nullptr\<close> (\<open>None\<close>).
\<close>

datatype poll_method = Poll_One | Poll | Run_One | Run

definition worker_get_poll_method :: "poll \<Rightarrow> poll_method option" where
  "worker_get_poll_method poll_policy =
     (if poll_policy = disabled then None
      else if poll_policy = poll_one then Some Poll_One
      else if poll_policy = poll_all then Some Poll
      else if poll_policy = run_one then Some Run_One
      else None)"

text \<open>
  A worker thread runs beside the threads that post tasks and that start and stop the
  scheduler. What it observes of them in one round of its loop is given to the model:
  the value \<open>get_state()\<close> returns at the top of the round, and for every queue what the
  call of the chosen member function on it does in this round (it returns the number of
  tasks executed, or a task throws) and what \<open>stopped()\<close> says after it. No queue is
  polled twice in a round.
\<close>

datatype poll_result = Executed size_t | Threw exn

record round =
  seen_state :: state
  polled :: "nat \<Rightarrow> poll_result"
  stopped_after :: "nat \<Rightarrow> bool"

text \<open>
  What a worker does is logged: the calls of the member functions on the queues, the
  calls of the exception handler, and the calls of \<open>worker_delay_\<close> with what the
  delay is (\<open>worker_delay_\<close> is a switch over the three policies and does nothing for
  any other value).
\<close>

datatype pause = No_Pause | Yield_Pause | Sleep_Pause "64 word"

datatype action = Call nat poll_method | Sink string | Delay pause

definition worker_delay :: "parameters \<Rightarrow> pause" where
  "worker_delay ps =
     (if delay_policy ps = delay_no_delay then No_Pause
      else if delay_policy ps = delay_yield then Yield_Pause
      else if delay_policy ps = delay_sleep then Sleep_Pause (delay_value ps)
      else No_Pause)"

text \<open>
  \<open>worker_poll_context_\<close>: the call in a \<open>try\<close>, with a handler for \<open>std::exception\<close>
  that calls the exception handler if there is one and returns 0. The last argument is
  what the call does. An exception that leaves the function is \<open>Inl\<close>.
\<close>

definition worker_poll_context ::
  "exception_handler_type option \<Rightarrow> nat \<Rightarrow> poll_method \<Rightarrow> poll_result
     \<Rightarrow> (exn + size_t) \<times> action list" where
  "worker_poll_context handler q poll_method res =
     (case res of
        Executed n \<Rightarrow> (Inr n, [Call q poll_method])
      | Threw (Std_Exception w) \<Rightarrow>
          (case handler of
             None \<Rightarrow> (Inr 0, [Call q poll_method])
           | Some f \<Rightarrow>
               (case f w of
                  None \<Rightarrow> (Inr 0, [Call q poll_method, Sink w])
                | Some x \<Rightarrow> (Inl x, [Call q poll_method, Sink w])))
      | Threw Other_Exception \<Rightarrow> (Inl Other_Exception, [Call q poll_method]))"

text \<open>
  \<open>worker_poll_contexts_\<close>: the \<open>for\<close> over the child queues, in their order, adding to
  \<open>executed\<close> (which starts at 0).
\<close>

fun worker_poll_contexts ::
  "exception_handler_type option \<Rightarrow> nat list \<Rightarrow> poll_method \<Rightarrow> (nat \<Rightarrow> poll_result) \<Rightarrow> size_t
     \<Rightarrow> (exn + size_t) \<times> action list" where
  "worker_poll_contexts handler [] poll_method res executed = (Inr executed, [])"
| "worker_poll_contexts handler (q # qs) poll_method res executed =
     (case worker_poll_context handler q poll_method (res q) of
        (Inl x, acts) \<Rightarrow> (Inl x, acts)
      | (Inr n, acts) \<Rightarrow>
          (case worker_poll_contexts handler qs poll_method res (executed + n) of
             (r, acts') \<Rightarrow> (r, acts @ acts')))"

text \<open>
  How a worker ends: its function returns, or an exception leaves it (which ends the
  program, as for any thread). A loop that has used up the rounds given to it is still
  running: \<open>None\<close>.
\<close>

datatype worker_end = Returned | Terminated exn

text \<open>
  \<open>worker_run_single_\<close>:
  \<^verbatim>\<open>while (get_state() != stopping) {
    if (wait_rounds >= delay_rounds) { wait_rounds = 0; worker_delay_(parameters); }
    worker_poll_context_(context, &io_context::run);
    if (context.stopped()) ++wait_rounds; }\<close>
\<close>

fun worker_run_single ::
  "exception_handler_type option \<Rightarrow> parameters \<Rightarrow> nat \<Rightarrow> size_t \<Rightarrow> round list
     \<Rightarrow> worker_end option \<times> action list" where
  "worker_run_single handler ps q wait_rounds [] = (None, [])"
| "worker_run_single handler ps q wait_rounds (r # rs) =
     (if seen_state r = stopping then (Some Returned, [])
      else
        (let delayed = (wait_rounds \<ge> delay_rounds ps);
             wait_rounds1 = (if delayed then 0 else wait_rounds);
             acts1 = (if delayed then [Delay (worker_delay ps)] else [])
         in case worker_poll_context handler q Run (polled r q) of
              (Inl x, acts2) \<Rightarrow> (Some (Terminated x), acts1 @ acts2)
            | (Inr _, acts2) \<Rightarrow>
                (case worker_run_single handler ps q
                        (if stopped_after r q then wait_rounds1 + 1 else wait_rounds1) rs of
                   (e, acts3) \<Rightarrow> (e, acts1 @ acts2 @ acts3))))"

text \<open>
  \<open>worker_run_multiple_\<close>: the same loop, with a poll of the own queue (if there is a
  member function for it) and of the child queues (if there is one for them) in every
  round, and \<open>++wait_rounds\<close> when the two together executed nothing.
\<close>

fun worker_run_multiple ::
  "exception_handler_type option \<Rightarrow> parameters \<Rightarrow> nat option \<Rightarrow> nat list \<Rightarrow> size_t \<Rightarrow> round list
     \<Rightarrow> worker_end option \<times> action list" where
  "worker_run_multiple handler ps self_context_ptr child_context_ptrs wait_rounds [] = (None, [])"
| "worker_run_multiple handler ps self_context_ptr child_context_ptrs wait_rounds (r # rs) =
     (if seen_state r = stopping then (Some Returned, [])
      else
        (let self_poll_method =
               (case self_context_ptr of None \<Rightarrow> None
                | Some _ \<Rightarrow> worker_get_poll_method (self_poll_policy ps));
             children_poll_method = worker_get_poll_method (children_poll_policy ps);
             delayed = (wait_rounds \<ge> delay_rounds ps);
             wait_rounds1 = (if delayed then 0 else wait_rounds);
             acts1 = (if delayed then [Delay (worker_delay ps)] else [])
         in case (case (self_context_ptr, self_poll_method) of
                    (Some q, Some m) \<Rightarrow> worker_poll_context handler q m (polled r q)
                  | _ \<Rightarrow> (Inr 0, [])) of
              (Inl x, acts2) \<Rightarrow> (Some (Terminated x), acts1 @ acts2)
            | (Inr executed_self, acts2) \<Rightarrow>
                (case (case children_poll_method of
                         Some m \<Rightarrow> worker_poll_contexts handler child_context_ptrs m (polled r) 0
                       | None \<Rightarrow> (Inr 0, [])) of
                   (Inl x, acts3) \<Rightarrow> (Some (Terminated x), acts1 @ acts2 @ acts3)
                 | (Inr executed_children, acts3) \<Rightarrow>
                     (case worker_run_multiple handler ps self_context_ptr child_context_ptrs
                             (if 0 + executed_self + executed_children = 0
                              then wait_rounds1 + 1 else wait_rounds1) rs of
                        (e, acts4) \<Rightarrow> (e, acts1 @ acts2 @ acts3 @ acts4)))))"

text \<open>
  \<open>worker_get_child_contexts_to_run_\<close>: the queues of the enabled nodes below the
  node, collected through a queue of nodes. The \<open>while\<close> over that queue ends on a tree;
  the model does not suppose one, and has no result where the loop does not end.
\<close>

partial_function (option) collect_child_contexts ::
  "node list \<Rightarrow> nat list \<Rightarrow> nat list \<Rightarrow> nat list option" where
  "collect_child_contexts ns nodes_queue child_context_ptrs =
     (case nodes_queue of
        [] \<Rightarrow> Some child_context_ptrs
      | node_ptr # rest \<Rightarrow>
          collect_child_contexts ns (rest @ children_ptrs (ns ! node_ptr))
            (if n_enabled (ns ! node_ptr) then child_context_ptrs @ [node_ptr]
             else child_context_ptrs))"

definition worker_get_child_contexts_to_run :: "node list \<Rightarrow> nat \<Rightarrow> parameters \<Rightarrow> nat list option" where
  "worker_get_child_contexts_to_run ns n ps =
     (if children_poll_policy ps \<noteq> disabled
      then collect_child_contexts ns (children_ptrs (ns ! n)) []
      else Some [])"

text \<open>
  \<open>worker_run_\<close>: the own queue if the self poll policy is not \<open>disabled\<close> and the node
  is enabled (\<open>self_context\<close> here), the child queues, and the choice between the two
  loops, or neither.
\<close>

definition self_context :: "node list \<Rightarrow> nat \<Rightarrow> parameters \<Rightarrow> nat option" where
  "self_context ns n ps =
     (if self_poll_policy ps \<noteq> disabled \<and> n_enabled (ns ! n) then Some n else None)"

definition worker_run ::
  "exception_handler_type option \<Rightarrow> node list \<Rightarrow> nat \<Rightarrow> parameters \<Rightarrow> round list
     \<Rightarrow> (worker_end option \<times> action list) option" where
  "worker_run handler ns n ps rounds =
     (let self_context_ptr = self_context ns n ps in
      case worker_get_child_contexts_to_run ns n ps of
        None \<Rightarrow> None
      | Some child_context_ptrs \<Rightarrow>
          if child_context_ptrs = [] \<and> self_context_ptr \<noteq> None
          then Some (worker_run_single handler ps (the self_context_ptr) 0 rounds)
          else if length child_context_ptrs = 1 \<and> self_context_ptr = None
          then Some (worker_run_single handler ps (hd child_context_ptrs) 0 rounds)
          else if length child_context_ptrs > 1 \<or> self_context_ptr \<noteq> None
          then Some (worker_run_multiple handler ps self_context_ptr child_context_ptrs 0 rounds)
          else Some (Some Returned, []))"

subsection \<open>Notions for the statements about the worker\<close>

text \<open>
  Of one call of a member function on a queue: the exception that leaves
  \<open>worker_poll_context_\<close>, if any (the one the exception handler throws when it is called
  with a task's \<open>std::exception\<close>, or a task's exception that is no \<open>std::exception\<close>);
  the number of tasks the call counts for; and what is logged (the call, and the call of
  the exception handler if a task threw a \<open>std::exception\<close> and there is a handler).
\<close>

definition escaping :: "exception_handler_type option \<Rightarrow> poll_result \<Rightarrow> exn option" where
  "escaping handler res =
     (case res of
        Executed n \<Rightarrow> None
      | Threw (Std_Exception w) \<Rightarrow> (case handler of None \<Rightarrow> None | Some f \<Rightarrow> f w)
      | Threw Other_Exception \<Rightarrow> Some Other_Exception)"

definition counted :: "poll_result \<Rightarrow> size_t" where
  "counted res = (case res of Executed n \<Rightarrow> n | Threw x \<Rightarrow> 0)"

definition poll_log ::
  "exception_handler_type option \<Rightarrow> nat \<Rightarrow> poll_method \<Rightarrow> poll_result \<Rightarrow> action list" where
  "poll_log handler q m res =
     Call q m #
     (case res of
        Threw (Std_Exception w) \<Rightarrow> (case handler of None \<Rightarrow> [] | Some f \<Rightarrow> [Sink w])
      | _ \<Rightarrow> [])"

text \<open>
  Of the calls that a round makes, in their order: the first one that lets an exception
  out (its position and the exception), and the log of the round.
\<close>

fun first_escaping ::
  "exception_handler_type option \<Rightarrow> (nat \<times> poll_method) list \<Rightarrow> (nat \<Rightarrow> poll_result)
     \<Rightarrow> (nat \<times> exn) option" where
  "first_escaping handler [] res = None"
| "first_escaping handler ((q, m) # calls) res =
     (case escaping handler (res q) of
        Some x \<Rightarrow> Some (0, x)
      | None \<Rightarrow> map_option (\<lambda>(k, x). (Suc k, x)) (first_escaping handler calls res))"

definition round_log ::
  "exception_handler_type option \<Rightarrow> (nat \<times> poll_method) list \<Rightarrow> round \<Rightarrow> action list" where
  "round_log handler calls r = concat (map (\<lambda>(q, m). poll_log handler q m (polled r q)) calls)"

text \<open>
  The calls of a round of the multi-queue loop: on the own queue, if the worker has one
  and its poll policy names a member function, and then on every child queue, if the
  children poll policy names one.
\<close>

definition round_calls :: "parameters \<Rightarrow> nat option \<Rightarrow> nat list \<Rightarrow> (nat \<times> poll_method) list" where
  "round_calls ps self_context_ptr child_context_ptrs =
     (case self_context_ptr of
        None \<Rightarrow> []
      | Some q \<Rightarrow> (case worker_get_poll_method (self_poll_policy ps) of
                    None \<Rightarrow> [] | Some m \<Rightarrow> [(q, m)]))
     @ (case worker_get_poll_method (children_poll_policy ps) of
          None \<Rightarrow> [] | Some m \<Rightarrow> map (\<lambda>q. (q, m)) child_context_ptrs)"

text \<open>
  What the two loops have in common: the test of the state, the delay when
  \<open>wait_rounds\<close> has reached \<open>delay_rounds\<close>, the calls of the round (an exception that
  leaves them ends the worker), and \<open>++wait_rounds\<close> after a round that was idle. The
  calls are the argument \<open>body\<close>.
\<close>

fun worker_loop ::
  "parameters \<Rightarrow> (round \<Rightarrow> (exn + bool) \<times> action list) \<Rightarrow> size_t \<Rightarrow> round list
     \<Rightarrow> worker_end option \<times> action list" where
  "worker_loop ps body wait_rounds [] = (None, [])"
| "worker_loop ps body wait_rounds (r # rs) =
     (if seen_state r = stopping then (Some Returned, [])
      else (case body r of
              (Inl x, acts) \<Rightarrow>
                (Some (Terminated x),
                 (if wait_rounds \<ge> delay_rounds ps then [Delay (worker_delay ps)] else []) @ acts)
            | (Inr no_task, acts) \<Rightarrow>
                (fst (worker_loop ps body
                        (if no_task then (if wait_rounds \<ge> delay_rounds ps then 0 else wait_rounds) + 1
                         else (if wait_rounds \<ge> delay_rounds ps then 0 else wait_rounds)) rs),
                 (if wait_rounds \<ge> delay_rounds ps then [Delay (worker_delay ps)] else []) @ acts
                 @ snd (worker_loop ps body
                        (if no_task then (if wait_rounds \<ge> delay_rounds ps then 0 else wait_rounds) + 1
                         else (if wait_rounds \<ge> delay_rounds ps then 0 else wait_rounds)) rs))))"

text \<open>The calls of a round as such a body: they end at the first exception that escapes.\<close>

definition calls_body ::
  "exception_handler_type option \<Rightarrow> (nat \<times> poll_method) list \<Rightarrow> (round \<Rightarrow> bool)
     \<Rightarrow> round \<Rightarrow> (exn + bool) \<times> action list" where
  "calls_body handler calls no_task r =
     (case first_escaping handler calls (polled r) of
        Some (k, x) \<Rightarrow> (Inl x, round_log handler (take (Suc k) calls) r)
      | None \<Rightarrow> (Inr (no_task r), round_log handler calls r))"

text \<open>What a round logs: its calls up to the first one that lets an exception out.\<close>

definition round_acts ::
  "exception_handler_type option \<Rightarrow> (nat \<times> poll_method) list \<Rightarrow> round \<Rightarrow> action list" where
  "round_acts handler calls r =
     (case first_escaping handler calls (polled r) of
        Some (k, x) \<Rightarrow> round_log handler (take (Suc k) calls) r
      | None \<Rightarrow> round_log handler calls r)"

fun is_delay :: "action \<Rightarrow> bool" where
  "is_delay (Delay p) = True"
| "is_delay _ = False"

text \<open>A node array with a root above two leaves; the second leaf is not enabled.\<close>

definition nodes3 :: "node list" where
  "nodes3 =
     [\<lparr> io_ctx = \<lparr> hint = None, stopped = False \<rparr>, children_ptrs = [1, 2], workers = [],
         work_guard = False, n_worker_parameters = [default_parameters], n_enabled = True \<rparr>,
      \<lparr> io_ctx = \<lparr> hint = None, stopped = False \<rparr>, children_ptrs = [], workers = [],
         work_guard = False, n_worker_parameters = [default_parameters], n_enabled = True \<rparr>,
      \<lparr> io_ctx = \<lparr> hint = None, stopped = False \<rparr>, children_ptrs = [], workers = [],
         work_guard = False, n_worker_parameters = [], n_enabled = False \<rparr>]"

text \<open>
  Rounds of a running scheduler in which every call executes one task, in which a task
  of every queue throws a \<open>std::exception\<close>, and in which a task throws something else;
  and a round of a stopping scheduler.
\<close>

definition round_running :: round where
  "round_running =
     \<lparr> seen_state = running, polled = (\<lambda>q. Executed 1), stopped_after = (\<lambda>q. False) \<rparr>"

definition round_throwing :: round where
  "round_throwing =
     \<lparr> seen_state = running, polled = (\<lambda>q. Threw (Std_Exception ''boom'')),
       stopped_after = (\<lambda>q. False) \<rparr>"

definition round_throwing_other :: round where
  "round_throwing_other =
     \<lparr> seen_state = running, polled = (\<lambda>q. Threw Other_Exception),
       stopped_after = (\<lambda>q. False) \<rparr>"

definition round_stopping :: round where
  "round_stopping =
     \<lparr> seen_state = stopping, polled = (\<lambda>q. Executed 0), stopped_after = (\<lambda>q. True) \<rparr>"

section \<open>The coroutine facility (\<open>coroutine_context\<close>, its value slots and callers)\<close>

text \<open>
  Objects that the coroutine and a completion handler share are kept in an explicit
  memory, by address: the coroutine records (\<open>coro_data\<close>), the strand of each record
  (the closures posted to it, oldest first), the \<open>error_code\<close> objects of the user, and
  the value slots. An \<open>error_code\<close> is its integer value; 0 is success.
\<close>

type_synonym addr = nat
type_synonym error_code = "32 word"

text \<open>
  \<open>coroutine_context\<close>: a weak pointer to the coroutine record and \<open>ec_ptr_\<close>, the
  pointer to an external error code (\<open>nullptr\<close> is \<open>None\<close>).
\<close>

record coroutine_context =
  weak_coro_data_ptr :: addr
  ec_ptr :: "addr option"

text \<open>\<open>primitive_caller\<close>: the closure that \<open>coro_start\<close> posts; it resumes the coroutine.\<close>

datatype task = Primitive_Caller addr

text \<open>
  \<open>coroutine_context::value<Ts...>\<close> without an error code: \<open>context_\<close>, the counter
  \<open>ready_\<close> (an \<open>unsigned int\<close>) and \<open>value_\<close>. The specialisations for
  \<open>(error_code, Ts...)\<close> add the member \<open>ec_\<close>.
\<close>

record 'a value_slot =
  slot_context :: coroutine_context
  ready :: "32 word"
  value_v :: 'a

record 'a value_ec_slot = "'a value_slot" +
  ec :: error_code

record 's memory =
  coro_alive :: "addr \<Rightarrow> bool"
  strand :: "addr \<Rightarrow> task list"
  error_codes :: "addr \<Rightarrow> error_code"
  slots :: "addr \<Rightarrow> 's"

text \<open>
  The constructors \<open>value(coroutine_context)\<close>. \<open>value_\<close> has no initialiser: the first
  argument is what the default initialisation of its type leaves there.
\<close>

definition new_value :: "'a \<Rightarrow> coroutine_context \<Rightarrow> 'a value_slot" where
  "new_value init c = \<lparr> slot_context = c, ready = 0, value_v = init \<rparr>"

definition new_value_ec :: "'a \<Rightarrow> coroutine_context \<Rightarrow> 'a value_ec_slot" where
  "new_value_ec init c = \<lparr> slot_context = c, ready = 0, value_v = init, ec = 0 \<rparr>"

text \<open>\<open>lock_\<close>: the record, or \<open>coroutine_expired\<close> when nobody owns it any more.\<close>

definition lock :: "coroutine_context \<Rightarrow> 's memory \<Rightarrow> error + addr" where
  "lock c m =
     (if coro_alive m (weak_coro_data_ptr c) then Inr (weak_coro_data_ptr c)
      else Inl Coroutine_Expired)"

text \<open>\<open>operator[]\<close>: a copy of the handle with the external error code installed.\<close>

definition subscript :: "coroutine_context \<Rightarrow> addr \<Rightarrow> coroutine_context" where
  "subscript c e = c\<lparr>ec_ptr := Some e\<rparr>"

text \<open>\<open>best_ec_\<close> returns a reference: to the external error code, or to the internal one.\<close>

datatype ec_ref = External addr | Internal

definition best_ec :: "coroutine_context \<Rightarrow> ec_ref" where
  "best_ec c = (case ec_ptr c of Some p \<Rightarrow> External p | None \<Rightarrow> Internal)"

text \<open>\<open>coro_start\<close> posts a \<open>primitive_caller\<close> to the strand; \<open>continue_\<close> calls it.\<close>

definition coro_start :: "addr \<Rightarrow> 's memory \<Rightarrow> 's memory" where
  "coro_start a m = m\<lparr>strand := (strand m)(a := strand m a @ [Primitive_Caller a])\<rparr>"

definition continue :: "addr \<Rightarrow> 's memory \<Rightarrow> 's memory" where
  "continue a m = coro_start a m"

text \<open>
  \<open>yield_\<close> suspends the coroutine (after \<open>lock_\<close>, which may throw). A function that may
  yield returns a step: it has finished with a result or an exception, or it has
  yielded, and then carries the rest of its body, to be run on the memory the coroutine
  finds when it is resumed.
\<close>

datatype ('m, 'r) step = Finished "error + 'r" | Yielded "'m \<Rightarrow> error + 'r"

text \<open>
  \<open>value<T...>::set\<close> and \<open>get\<close>, called through a pointer to the slot:
  \<^verbatim>\<open>if (++ready_ == 2) { value_ = ...; return true; } return false;\<close> and
  \<^verbatim>\<open>if (++ready_ != 2) context_.yield_(); return std::move(value_);\<close>
\<close>

definition value_set :: "addr \<Rightarrow> 'a \<Rightarrow> 'a value_slot memory \<Rightarrow> bool \<times> 'a value_slot memory" where
  "value_set p arg m =
     (let v = (slots m p)\<lparr>ready := ready (slots m p) + 1\<rparr> in
      if ready v = 2
      then (True, m\<lparr>slots := (slots m)(p := v\<lparr>value_v := arg\<rparr>)\<rparr>)
      else (False, m\<lparr>slots := (slots m)(p := v)\<rparr>))"

definition value_get ::
  "addr \<Rightarrow> 'a value_slot memory \<Rightarrow> ('a value_slot memory, 'a) step \<times> 'a value_slot memory" where
  "value_get p m =
     (let v = (slots m p)\<lparr>ready := ready (slots m p) + 1\<rparr>;
          m1 = m\<lparr>slots := (slots m)(p := v)\<rparr> in
      if ready v \<noteq> 2
      then (case lock (slot_context v) m1 of
              Inl e \<Rightarrow> (Finished (Inl e), m1)
            | Inr _ \<Rightarrow> (Yielded (\<lambda>m'. Inr (value_v (slots m' p))), m1))
      else (Finished (Inr (value_v v)), m1))"

text \<open>
  The same two members of \<open>value<error_code, T...>\<close>:
  \<^verbatim>\<open>if (++ready_ == 2) { context_.best_ec_(ec_) = ec; value_ = ...; return true; }\<close> and
  \<^verbatim>\<open>if (++ready_ != 2) context_.yield_(); if (ec_) throw system_error{ec_}; return value_;\<close>
\<close>

definition value_ec_set ::
  "addr \<Rightarrow> error_code \<times> 'a \<Rightarrow> 'a value_ec_slot memory \<Rightarrow> bool \<times> 'a value_ec_slot memory" where
  "value_ec_set p args m =
     (let v = (slots m p)\<lparr>ready := ready (slots m p) + 1\<rparr> in
      if ready v = 2
      then (case best_ec (slot_context v) of
              External e \<Rightarrow>
                (True, m\<lparr>error_codes := (error_codes m)(e := fst args),
                          slots := (slots m)(p := v\<lparr>value_v := snd args\<rparr>)\<rparr>)
            | Internal \<Rightarrow>
                (True, m\<lparr>slots := (slots m)(p := v\<lparr>ec := fst args, value_v := snd args\<rparr>)\<rparr>))
      else (False, m\<lparr>slots := (slots m)(p := v)\<rparr>))"

definition value_ec_finish :: "'a value_ec_slot \<Rightarrow> error + 'a" where
  "value_ec_finish v = (if ec v \<noteq> 0 then Inl (System_Error (ec v)) else Inr (value_v v))"

definition value_ec_get ::
  "addr \<Rightarrow> 'a value_ec_slot memory \<Rightarrow>
     ('a value_ec_slot memory, 'a) step \<times> 'a value_ec_slot memory" where
  "value_ec_get p m =
     (let v = (slots m p)\<lparr>ready := ready (slots m p) + 1\<rparr>;
          m1 = m\<lparr>slots := (slots m)(p := v)\<rparr> in
      if ready v \<noteq> 2
      then (case lock (slot_context v) m1 of
              Inl e \<Rightarrow> (Finished (Inl e), m1)
            | Inr _ \<Rightarrow> (Yielded (\<lambda>m'. value_ec_finish (slots m' p)), m1))
      else (Finished (value_ec_finish v), m1))"

text \<open>
  \<open>coroutine_context::caller<Ts...>\<close>: a shared pointer to the coroutine record and
  \<open>value_ptr_\<close>, the pointer to the slot (\<open>nullptr\<close> by default). Both constructors
  take the record from \<open>lock_\<close> and nothing else from the handle.
\<close>

record caller =
  coro_data_ptr :: addr
  value_ptr :: "addr option"

definition get_caller_unbound :: "coroutine_context \<Rightarrow> 's memory \<Rightarrow> error + caller" where
  "get_caller_unbound c m =
     (case lock c m of
        Inl e \<Rightarrow> Inl e
      | Inr a \<Rightarrow> Inr \<lparr> coro_data_ptr = a, value_ptr = None \<rparr>)"

definition get_caller :: "coroutine_context \<Rightarrow> addr \<Rightarrow> 's memory \<Rightarrow> error + caller" where
  "get_caller c p m =
     (case lock c m of
        Inl e \<Rightarrow> Inl e
      | Inr a \<Rightarrow> Inr \<lparr> coro_data_ptr = a, value_ptr = Some p \<rparr>)"

definition bind_value :: "caller \<Rightarrow> addr \<Rightarrow> caller" where
  "bind_value c p = c\<lparr>value_ptr := Some p\<rparr>"

text \<open>\<open>caller::get_context\<close> builds a handle from the record alone: \<open>ec_ptr_\<close> is null.\<close>

definition get_context :: "caller \<Rightarrow> coroutine_context" where
  "get_context c = \<lparr> weak_coro_data_ptr = coro_data_ptr c, ec_ptr = None \<rparr>"

text \<open>
  \<open>caller::operator()\<close>. The member \<open>set\<close> it calls is that of the slot type the caller
  was instantiated with: the first argument here.
\<close>

definition caller_call ::
  "(addr \<Rightarrow> 'args \<Rightarrow> 's memory \<Rightarrow> bool \<times> 's memory) \<Rightarrow> caller \<Rightarrow> 'args \<Rightarrow> 's memory
     \<Rightarrow> (error + unit) \<times> 's memory" where
  "caller_call set_fn c args m =
     (case value_ptr c of
        None \<Rightarrow> (Inl (Logic_Error ''Incorrect coroutine caller: Value not bound''), m)
      | Some p \<Rightarrow>
          (if fst (set_fn p args m)
           then (Inr (), continue (coro_data_ptr c) (snd (set_fn p args m)))
           else (Inr (), snd (set_fn p args m))))"

text \<open>
  \<open>async_result<caller<Ts...>>\<close>: its constructor makes the slot (at the address given)
  from \<open>c.get_context()\<close> and binds the caller to it. The first argument is the slot's
  constructor.
\<close>

definition async_result ::
  "(coroutine_context \<Rightarrow> 's) \<Rightarrow> addr \<Rightarrow> caller \<Rightarrow> 's memory \<Rightarrow> caller \<times> 's memory" where
  "async_result new_slot p c m =
     (bind_value c p, m\<lparr>slots := (slots m)(p := new_slot (get_context c))\<rparr>)"

section \<open>Normalisation of worker parameters\<close>

lemma fixed_self_poll:
  "self_poll_policy (fixed_worker_parameters p) =
     (if self_poll_policy p \<in> {disabled, poll_one, poll_all, run_one}
      then self_poll_policy p else poll_all)"
  by (simp add: fixed_worker_parameters_def fix_delay_policy_def fix_delay_rounds_def
      fix_children_poll_def fix_self_poll_def default_parameters_def)

lemma fixed_children_poll:
  "children_poll_policy (fixed_worker_parameters p) =
     (if children_poll_policy p \<in> {disabled, poll_one, poll_all, run_one}
      then children_poll_policy p else poll_one)"
  by (simp add: fixed_worker_parameters_def fix_delay_policy_def fix_delay_rounds_def
      fix_children_poll_def fix_self_poll_def default_parameters_def)

lemma fixed_delay_rounds:
  "delay_rounds (fixed_worker_parameters p) = (if delay_rounds p < 1 then 1 else delay_rounds p)"
  by (simp add: fixed_worker_parameters_def fix_delay_policy_def fix_delay_rounds_def
      fix_children_poll_def fix_self_poll_def default_parameters_def)

lemma fixed_delay_policy:
  "delay_policy (fixed_worker_parameters p) =
     (if delay_policy p \<in> {delay_no_delay, delay_yield, delay_sleep} then delay_policy p else delay_yield)"
  by (simp add: fixed_worker_parameters_def fix_delay_policy_def fix_delay_rounds_def
      fix_children_poll_def fix_self_poll_def default_parameters_def)

lemma fixed_delay_value:
  "delay_value (fixed_worker_parameters p) = delay_value p"
  by (simp add: fixed_worker_parameters_def fix_delay_policy_def fix_delay_rounds_def
      fix_children_poll_def fix_self_poll_def default_parameters_def)

lemma fixed_worker_parameters_eq:
  "fixed_worker_parameters p =
     \<lparr> self_poll_policy =
         (if self_poll_policy p \<in> {disabled, poll_one, poll_all, run_one}
          then self_poll_policy p else poll_all),
       children_poll_policy =
         (if children_poll_policy p \<in> {disabled, poll_one, poll_all, run_one}
          then children_poll_policy p else poll_one),
       delay_rounds = (if delay_rounds p < 1 then 1 else delay_rounds p),
       delay_policy =
         (if delay_policy p \<in> {delay_no_delay, delay_yield, delay_sleep}
          then delay_policy p else delay_yield),
       delay_value = delay_value p \<rparr>"
  by (rule parameters.equality)
     (simp_all add: fixed_self_poll fixed_children_poll fixed_delay_rounds fixed_delay_policy
        fixed_delay_value)

text \<open>
  Claim C5. With a context id of the tree, \<open>add_worker\<close> returns the new worker id
  and appends, and \<open>set_worker_parameters\<close> stores in each worker slot of the node, the
  record \<open>q\<close>: the one given, except that a self poll value that is no enumerator is
  \<open>poll_all\<close>, a children poll value that is no enumerator is \<open>poll_one\<close>, a
  \<open>delay_rounds\<close> below 1 is 1, and a delay policy that is no enumerator is \<open>yield\<close>.
  Nothing else in the tree changes and no error is raised. (The \<open>add_worker\<close> without
  a record appends the default record, which the normalisation leaves as it is.)
\<close>

theorem stored_worker_parameters_normalised:
  assumes "context_id < length t"
  shows "(let q = \<lparr> self_poll_policy =
                     (if self_poll_policy p \<in> {disabled, poll_one, poll_all, run_one}
                      then self_poll_policy p else poll_all),
                   children_poll_policy =
                     (if children_poll_policy p \<in> {disabled, poll_one, poll_all, run_one}
                      then children_poll_policy p else poll_one),
                   delay_rounds = (if delay_rounds p < 1 then 1 else delay_rounds p),
                   delay_policy =
                     (if delay_policy p \<in> {delay_no_delay, delay_yield, delay_sleep}
                      then delay_policy p else delay_yield),
                   delay_value = delay_value p \<rparr>;
              wps = worker_parameters (t ! context_id)
          in add_worker t context_id p
               = Inr (length wps, t[context_id := (t ! context_id)\<lparr>worker_parameters := wps @ [q]\<rparr>])
           \<and> add_worker_default t context_id
               = Inr (length wps,
                      t[context_id := (t ! context_id)\<lparr>worker_parameters := wps @ [default_parameters]\<rparr>])
           \<and> fixed_worker_parameters default_parameters = default_parameters
           \<and> (\<forall>worker<length wps.
                 set_worker_parameters t context_id worker p
                   = Inr (t[context_id := (t ! context_id)\<lparr>worker_parameters := wps[worker := q]\<rparr>])))"
  using assms
  unfolding Let_def fixed_worker_parameters_eq [symmetric]
  by (simp add: add_worker_def add_worker_default_def set_worker_parameters_def vector_at_def
      fixed_worker_parameters_def fix_delay_policy_def fix_delay_rounds_def fix_children_poll_def
      fix_self_poll_def default_parameters_def poll_all_def poll_one_def disabled_def
      delay_yield_def delay_no_delay_def)

text \<open>
  The theorem at \<open>add_worker\<close> on a node without worker slots, with a record that is
  wrong in every field, and at \<open>set_worker_parameters\<close> on the slot of the root of
  \<open>tree4\<close>, with a record that is wrong in one.
\<close>

theorem stored_worker_parameters_normalised_witness:
  "(0::nat) < length tree1
   \<and> add_worker tree1 0
        \<lparr> self_poll_policy = 7, children_poll_policy = 9, delay_rounds = 0,
          delay_policy = 5, delay_value = 123 \<rparr>
       = Inr (0, [(leaf 0 0 0)\<lparr>worker_parameters :=
                  [\<lparr> self_poll_policy = poll_all, children_poll_policy = poll_one,
                     delay_rounds = 1, delay_policy = delay_yield, delay_value = 123 \<rparr>]\<rparr>])
   \<and> (0::nat) < length tree4
   \<and> set_worker_parameters tree4 0 0
        \<lparr> self_poll_policy = run_one, children_poll_policy = 9, delay_rounds = 3,
          delay_policy = delay_sleep, delay_value = 123 \<rparr>
       = Inr (tree4[0 := (tree4 ! 0)\<lparr>worker_parameters :=
                  [\<lparr> self_poll_policy = run_one, children_poll_policy = poll_one,
                     delay_rounds = 3, delay_policy = delay_sleep, delay_value = 123 \<rparr>]\<rparr>])"
proof -
  have h1: "(0::nat) < length tree1" by (simp add: tree1_def)
  have h2: "(0::nat) < length tree4" by (simp add: tree4_def)
  have w1: "worker_parameters (leaf 0 0 0) = []" by (simp add: leaf_def)
  have w4: "worker_parameters (tree4 ! 0) = [default_parameters]" by (simp add: tree4_def leaf_def)
  have t1: "tree1 ! 0 = leaf 0 0 0" "tree1[0 := x] = [x]" for x by (simp_all add: tree1_def)
  note e = disabled_def poll_one_def poll_all_def run_one_def delay_no_delay_def delay_yield_def
    delay_sleep_def
  from stored_worker_parameters_normalised [OF h1, where p =
        "\<lparr> self_poll_policy = 7, children_poll_policy = 9, delay_rounds = 0,
          delay_policy = 5, delay_value = 123 \<rparr>"]
  have a: "add_worker tree1 0
        \<lparr> self_poll_policy = 7, children_poll_policy = 9, delay_rounds = 0,
          delay_policy = 5, delay_value = 123 \<rparr>
       = Inr (0, [(leaf 0 0 0)\<lparr>worker_parameters :=
                  [\<lparr> self_poll_policy = poll_all, children_poll_policy = poll_one,
                     delay_rounds = 1, delay_policy = delay_yield, delay_value = 123 \<rparr>]\<rparr>])"
    by (simp add: Let_def w1 t1 e)
  from stored_worker_parameters_normalised [OF h2, where p =
        "\<lparr> self_poll_policy = run_one, children_poll_policy = 9, delay_rounds = 3,
          delay_policy = delay_sleep, delay_value = 123 \<rparr>"]
  have b: "set_worker_parameters tree4 0 0
        \<lparr> self_poll_policy = run_one, children_poll_policy = 9, delay_rounds = 3,
          delay_policy = delay_sleep, delay_value = 123 \<rparr>
       = Inr (tree4[0 := (tree4 ! 0)\<lparr>worker_parameters :=
                  [\<lparr> self_poll_policy = run_one, children_poll_policy = poll_one,
                     delay_rounds = 3, delay_policy = delay_sleep, delay_value = 123 \<rparr>]\<rparr>])"
    by (simp add: Let_def w4 e)
  from h1 a h2 b show ?thesis by (intro conjI)
qed

section \<open>The state of the scheduler\<close>

lemma stores_append: "stores (xs @ ys) = stores xs @ stores ys"
  by (induction xs rule: stores.induct) auto

lemma stores_map_no_store [simp]:
  "stores (map Construct_Node xs) = []" "stores (map Unpin xs) = []" "stores (map Stop_Io xs) = []"
  "stores (map (Join_Thread n) xs) = []"
  by (induction xs) auto

lemma stores_join_events [simp]: "stores (join_events ns) = []"
proof -
  have "stores (concat (map (\<lambda>n. map (Join_Thread n) [0..<length (workers (ns ! n))]) xs)) = []" for xs
    by (induction xs) (auto simp: stores_append)
  then show ?thesis by (simp add: join_events_def)
qed






lemma stores_log [simp]:
  "stores (trace (log (Acquire m) c)) = stores (trace c)"
  "stores (trace (log (Release m) c)) = stores (trace c)"
  by (simp_all add: log_def stores_append)

lemma log_fields [simp]:
  "core_state (log e c) = core_state c" "joined (log e c) = joined c"
  "join_mutex_locked (log e c) = join_mutex_locked c" "nodes (log e c) = nodes c"
  by (simp_all add: log_def)

lemma store_state_fields [simp]:
  "core_state (store_state s c) = s" "joined (store_state s c) = joined c"
  "join_mutex_locked (store_state s c) = join_mutex_locked c" "nodes (store_state s c) = nodes c"
  "stores (trace (store_state s c)) = stores (trace c) @ [(core_state c, s)]"
  by (simp_all add: store_state_def stores_append)

lemma stop_workers_fields [simp]:
  "core_state (stop_workers c) = core_state c" "joined (stop_workers c) = joined c"
  "join_mutex_locked (stop_workers c) = join_mutex_locked c"
  "stores (trace (stop_workers c)) = stores (trace c)"
  by (simp_all add: stop_workers_def stores_append)

















section \<open>Construction of the node array\<close>

lemma tree_ok_nth:
  assumes "tree_ok t" and "j < length t"
  shows "if j = 0 then parent_id (t ! j) = 0 else parent_id (t ! j) < j"
proof -
  from assms(2) have "j \<in> set [0..<length t]" by simp
  with assms(1) [unfolded tree_ok_def list_all_iff] show ?thesis by (rule bspec)
qed

lemma tree_ok_parent: "tree_ok t \<Longrightarrow> j < length t \<Longrightarrow> parent_id (t ! j) < length t"
  using tree_ok_nth [of t j] by (cases "j = 0") simp_all

lemma tree_ok_parent_less: "tree_ok t \<Longrightarrow> 0 < j \<Longrightarrow> j < length t \<Longrightarrow> parent_id (t ! j) < j"
  using tree_ok_nth [of t j] by simp

lemma tree_ok_root: "tree_ok t \<Longrightarrow> t \<noteq> [] \<Longrightarrow> parent_id (t ! 0) = 0"
  using tree_ok_nth [of t 0] by simp

lemma do_destroy_rev: "do_destroy k = map Destroy_Node (rev [0..<k])"
  by (induction k) auto

lemma construct_nodes_throws:
  assumes "throws k = Some e"
    and "\<forall>j. length ns \<le> j \<and> j < k \<longrightarrow> throws j = None \<and> parent_id (rest ! (j - length ns)) < sz"
    and "length ns \<le> k" and "k < length ns + length rest"
  shows "construct_nodes throws sz rest (ns, ev)
           = (Inl (e, k), ev @ map Construct_Node [length ns..<k])"
  using assms
proof (induction rest arbitrary: ns ev)
  case Nil
  then show ?case by simp
next
  case (Cons n rest)
  show ?case
  proof (cases "length ns = k")
    case True
    with Cons.prems show ?thesis by simp
  next
    case False
    with Cons.prems have lt: "length ns < k" by simp
    with Cons.prems(2) have t: "throws (length ns) = None" and p: "parent_id n < sz"
      by auto
    define ns1 where "ns1 = ns @ [new_node n]"
    define ns2 where "ns2 = (if parent_id n \<noteq> length ns
       then ns1[parent_id n := (ns1 ! parent_id n)
               \<lparr>children_ptrs := children_ptrs (ns1 ! parent_id n) @ [length ns]\<rparr>]
       else ns1)"
    have l2: "length ns2 = Suc (length ns)" by (simp add: ns2_def ns1_def)
    have step: "construct_nodes throws sz (n # rest) (ns, ev)
        = construct_nodes throws sz rest (ns2, ev @ [Construct_Node (length ns)])"
      using t p by (simp add: ns2_def ns1_def Let_def)
    have pre: "\<forall>j. length ns2 \<le> j \<and> j < k \<longrightarrow>
        throws j = None \<and> parent_id (rest ! (j - length ns2)) < sz"
    proof (intro allI impI)
      fix j assume j: "length ns2 \<le> j \<and> j < k"
      with Cons.prems(2) [rule_format, of j] l2
      have "throws j = None \<and> parent_id ((n # rest) ! (j - length ns)) < sz"
        by simp
      moreover from j l2 have "(n # rest) ! (j - length ns) = rest ! (j - length ns2)"
        by (simp add: nth_Cons')
      ultimately show "throws j = None \<and> parent_id (rest ! (j - length ns2)) < sz" by simp
    qed
    have "construct_nodes throws sz rest (ns2, ev @ [Construct_Node (length ns)])
        = (Inl (e, k), (ev @ [Construct_Node (length ns)]) @ map Construct_Node [length ns2..<k])"
      using Cons.prems(1,4) lt l2 by (intro Cons.IH pre) auto
    moreover have "[length ns..<k] = length ns # [length ns2..<k]"
      using lt l2 by (simp add: upt_conv_Cons)
    ultimately show ?thesis using step by simp
  qed
qed
text \<open>
  Claim C6. The nodes are constructed in the order of their ids. If the construction
  of node \<open>k\<close> throws (and none before it does), the nodes \<open>0\<close> to \<open>k - 1\<close> have been
  constructed, in this order, and are then destroyed from \<open>k - 1\<close> down to \<open>0\<close>; the
  storage is freed and the constructor ends with the exception that was thrown.
\<close>

theorem construction_failure_unwinds:
  assumes "tree_ok t" and "k < length t"
    and "throws k = Some e" and "\<forall>j<k. throws j = None"
  shows "node_array throws t
           = (Inl e, map Construct_Node [0..<k] @ map Destroy_Node (rev [0..<k]) @ [Free_Storage])"
proof -
  have c: "construct_nodes throws (length t) t ([], [])
          = (Inl (e, k), [] @ map Construct_Node [length ([]::node list)..<k])"
  proof (rule construct_nodes_throws)
    show "throws k = Some e" by (rule assms(3))
    show "\<forall>j. length ([]::node list) \<le> j \<and> j < k \<longrightarrow>
            throws j = None \<and> parent_id (t ! (j - length ([]::node list))) < length t"
    proof (intro allI impI)
      fix j assume "length ([]::node list) \<le> j \<and> j < k"
      then have j: "j < k" by simp
      with assms(2) have "j < length t" by simp
      from tree_ok_parent [OF assms(1) this] assms(4) j
      show "throws j = None \<and> parent_id (t ! (j - length ([]::node list))) < length t"
        by simp
    qed
    show "length ([]::node list) \<le> k" by simp
    show "k < length ([]::node list) + length t" using assms(2) by simp
  qed
  from assms(2) have ne: "t \<noteq> []" by auto
  show ?thesis
    unfolding node_array_def c
    by (simp add: delete_nodes_def do_destroy_rev ne)
qed

text \<open>The theorem at the tree of four nodes, when the construction of node 2 throws.\<close>

theorem construction_failure_unwinds_witness:
  "tree_ok tree4 \<and> 2 < length tree4
   \<and> node_array (\<lambda>k. if k = 2 then Some (System_Error 12) else None) tree4
       = (Inl (System_Error 12),
          [Construct_Node 0, Construct_Node 1, Destroy_Node 1, Destroy_Node 0, Free_Storage])"
proof -
  have h1: "tree_ok tree4" by code_simp
  have h2: "2 < length tree4" by (simp add: tree4_def)
  have h3: "(\<lambda>k. if k = 2 then Some (System_Error 12) else None) (2::nat) = Some (System_Error 12)"
    by simp
  have h4: "\<forall>j<2. (\<lambda>k. if k = (2::nat) then Some (System_Error 12) else None) j = None"
    by simp
  have u: "[0..<2] = [0, Suc 0]" by (simp add: upt_rec)
  from construction_failure_unwinds [OF h1 h2 h3 h4] h1 h2 show ?thesis
    by (simp add: u)
qed

section \<open>The empty scheduler\<close>

lemma run_operation_empty:
  "nodes c = [] \<Longrightarrow> core_state c = idle \<Longrightarrow> \<not> join_mutex_locked c \<Longrightarrow> run_operation x c = Some c"
  by (cases x) (simp_all add: start_def stop_def join_def)

lemma run_operations_empty:
  "nodes c = [] \<Longrightarrow> core_state c = idle \<Longrightarrow> \<not> join_mutex_locked c \<Longrightarrow> run_operations xs c = Some c"
  by (induction xs) (simp_all add: run_operation_empty)

text \<open>
  Claim C9. The scheduler constructed from the empty tree has no node, is \<open>idle\<close> and
  has done nothing (whatever \<open>start_immediately\<close> says). On it \<open>start\<close> and \<open>stop\<close>
  return at once and leave the object as it is: no thread is started, no mutex is
  acquired, \<open>state_\<close> is not stored to (each of these would be in the log). So does
  every sequence of calls of \<open>start\<close>, \<open>stop\<close> and \<open>join\<close>: the state is \<open>idle\<close> for
  ever.
\<close>

theorem empty_scheduler_inert:
  "(let c = \<lparr> core_state = idle, nodes = [], joined = False, join_mutex_locked = False,
               exception_handler = h, trace = [] \<rparr>
    in new_async_core throws budget [] h start_immediately = Some (Constructed c)
     \<and> start b c = Some (Inr (), c)
     \<and> stop outcome c = Some (Inr (), c)
     \<and> run_operations xs c = Some c)"
  by (simp add: Let_def new_async_core_def node_array_def start_def stop_def run_operations_empty)

section \<open>The worker loop\<close>

lemma poll_context_eq:
  "worker_poll_context h q m res =
     ((case escaping h res of Some x \<Rightarrow> Inl x | None \<Rightarrow> Inr (counted res)), poll_log h q m res)"
  by (simp add: worker_poll_context_def escaping_def counted_def poll_log_def
           split: poll_result.splits exn.splits option.splits)

lemma round_log_Nil: "round_log h [] r = []"
  by (simp add: round_log_def)

lemma round_log_Cons: "round_log h ((q, m) # cs) r = poll_log h q m (polled r q) @ round_log h cs r"
  by (simp add: round_log_def)

lemma round_log_append: "round_log h (a @ b) r = round_log h a r @ round_log h b r"
  by (simp add: round_log_def)

lemma poll_contexts_eq:
  "worker_poll_contexts h qs m (polled r) e =
     (case first_escaping h (map (\<lambda>q. (q, m)) qs) (polled r) of
        Some (k, x) \<Rightarrow> (Inl x, round_log h (take (Suc k) (map (\<lambda>q. (q, m)) qs)) r)
      | None \<Rightarrow> (Inr (e + sum_list (map (\<lambda>q. counted (polled r q)) qs)),
                 round_log h (map (\<lambda>q. (q, m)) qs) r))"
proof (induction qs arbitrary: e)
  case Nil
  show ?case by (simp add: round_log_Nil)
next
  case (Cons q qs)
  show ?case
  proof (cases "escaping h (polled r q)")
    case (Some x)
    then show ?thesis by (simp add: poll_context_eq round_log_Cons round_log_Nil)
  next
    case None
    show ?thesis
    proof (cases "first_escaping h (map (\<lambda>q. (q, m)) qs) (polled r)")
      case inner: None
      show ?thesis using None inner Cons.IH [of "e + counted (polled r q)"]
        by (simp add: poll_context_eq round_log_Cons add.assoc)
    next
      case inner: (Some kx)
      obtain k x where kx: "kx = (k, x)" by (cases kx)
      show ?thesis using None inner kx Cons.IH [of "e + counted (polled r q)"]
        by (simp add: poll_context_eq round_log_Cons)
    qed
  qed
qed

lemma calls_body_single:
  "calls_body h [(q, m)] idl r =
     (case escaping h (polled r q) of
        Some x \<Rightarrow> (Inl x, poll_log h q m (polled r q))
      | None \<Rightarrow> (Inr (idl r), poll_log h q m (polled r q)))"
  by (simp add: calls_body_def round_log_Cons round_log_Nil split: option.splits)

lemma single_eq:
  "worker_run_single h ps q wr rs
     = worker_loop ps (calls_body h [(q, Run)] (\<lambda>r. stopped_after r q)) wr rs"
proof (induction rs arbitrary: wr)
  case Nil
  show ?case by simp
next
  case (Cons r rs)
  show ?case
    by (simp add: Cons.IH calls_body_single poll_context_eq Let_def split_beta split: option.splits)
qed

lemma sum_counted_map:
  "sum_list (map (\<lambda>(q, m). counted (polled r q)) (map (\<lambda>q. (q, m)) qs))
     = sum_list (map (\<lambda>q. counted (polled r q)) qs)"
  by (simp add: o_def)

lemma sum_counted_comp:
  "sum_list (map ((\<lambda>(q, m). counted (polled r q)) \<circ> (\<lambda>q. (q, m'))) qs)
     = sum_list (map (\<lambda>q. counted (polled r q)) qs)"
  by (simp add: o_def)

lemma round_calls_cases:
  "round_calls ps self chs =
     (case self of None \<Rightarrow> []
      | Some q \<Rightarrow> (case worker_get_poll_method (self_poll_policy ps) of
                    None \<Rightarrow> [] | Some m \<Rightarrow> [(q, m)]))
     @ (case worker_get_poll_method (children_poll_policy ps) of
          None \<Rightarrow> [] | Some m \<Rightarrow> map (\<lambda>q. (q, m)) chs)"
  by (simp add: round_calls_def)

lemma calls_body_Nil: "calls_body h [] idl r = (Inr (idl r), [])"
  by (simp add: calls_body_def round_log_Nil)

lemma calls_body_Cons:
  "calls_body h ((q, m) # cs) idl r =
     (case escaping h (polled r q) of
        Some x \<Rightarrow> (Inl x, poll_log h q m (polled r q))
      | None \<Rightarrow> (case calls_body h cs idl r of
                   (e, a) \<Rightarrow> (e, poll_log h q m (polled r q) @ a)))"
  by (simp add: calls_body_def round_log_Cons round_log_Nil split: option.splits)

lemma poll_contexts_body:
  "worker_poll_contexts h qs m (polled r) e =
     (case calls_body h (map (\<lambda>q. (q, m)) qs) (\<lambda>r. True) r of
        (Inl x, a) \<Rightarrow> (Inl x, a)
      | (Inr b, a) \<Rightarrow> (Inr (e + sum_list (map (\<lambda>q. counted (polled r q)) qs)), a))"
  by (simp add: poll_contexts_eq calls_body_def split: option.splits)

lemma calls_body_idle:
  "calls_body h cs idl r =
     (case calls_body h cs (\<lambda>r. True) r of
        (Inl x, a) \<Rightarrow> (Inl x, a)
      | (Inr b, a) \<Rightarrow> (Inr (idl r), a))"
  by (simp add: calls_body_def split: option.splits)

lemma multi_step:
  "worker_run_multiple h ps self chs wr (r # rs) =
     (if seen_state r = stopping then (Some Returned, [])
      else (case calls_body h (round_calls ps self chs)
                   (\<lambda>r. sum_list (map (\<lambda>(q, m). counted (polled r q)) (round_calls ps self chs)) = 0) r of
              (Inl x, acts) \<Rightarrow>
                (Some (Terminated x),
                 (if wr \<ge> delay_rounds ps then [Delay (worker_delay ps)] else []) @ acts)
            | (Inr no_task, acts) \<Rightarrow>
                (fst (worker_run_multiple h ps self chs
                        (if no_task then (if wr \<ge> delay_rounds ps then 0 else wr) + 1
                         else (if wr \<ge> delay_rounds ps then 0 else wr)) rs),
                 (if wr \<ge> delay_rounds ps then [Delay (worker_delay ps)] else []) @ acts
                 @ snd (worker_run_multiple h ps self chs
                        (if no_task then (if wr \<ge> delay_rounds ps then 0 else wr) + 1
                         else (if wr \<ge> delay_rounds ps then 0 else wr)) rs))))"
proof (cases "seen_state r = stopping")
  case True
  then show ?thesis by simp
next
  case False
  show ?thesis
  proof (cases "worker_get_poll_method (children_poll_policy ps)")
    case cn: None
    show ?thesis
    proof (cases self)
      case None
      show ?thesis using False cn None
        by (simp add: round_calls_cases calls_body_Nil Let_def split_beta)
    next
      case (Some q)
      show ?thesis
      proof (cases "worker_get_poll_method (self_poll_policy ps)")
        case sn: None
        show ?thesis using False cn Some sn
          by (simp add: round_calls_cases calls_body_Nil Let_def split_beta)
      next
        case sm: (Some m)
        show ?thesis using False cn Some sm
          by (simp add: round_calls_cases calls_body_Nil calls_body_Cons poll_context_eq
                Let_def split_beta split: option.splits)
      qed
    qed
  next
    case cm: (Some m')
    obtain e a where ea: "calls_body h (map (\<lambda>q. (q, m')) chs) (\<lambda>r. True) r = (e, a)"
      by (cases "calls_body h (map (\<lambda>q. (q, m')) chs) (\<lambda>r. True) r")
    show ?thesis
    proof (cases self)
      case None
      show ?thesis using False cm None ea
        by (subst calls_body_idle)
           (simp add: round_calls_cases poll_contexts_body sum_counted_map sum_counted_comp
                Let_def split_beta split: sum.splits)
    next
      case (Some q)
      show ?thesis
      proof (cases "worker_get_poll_method (self_poll_policy ps)")
        case sn: None
        show ?thesis using False cm Some sn ea
          by (subst calls_body_idle)
             (simp add: round_calls_cases poll_contexts_body sum_counted_map sum_counted_comp
                  Let_def split_beta split: sum.splits)
      next
        case sm: (Some m)
        show ?thesis
        proof (cases "escaping h (polled r q)")
          case en: None
          show ?thesis using False cm Some sm ea en
            by (subst calls_body_idle)
               (simp add: round_calls_cases poll_contexts_body sum_counted_map sum_counted_comp calls_body_Cons
                    poll_context_eq Let_def split_beta split: sum.splits)
        next
          case es: (Some x)
          show ?thesis using False cm Some sm es
            by (simp add: round_calls_cases calls_body_Cons poll_context_eq Let_def split_beta)
        qed
      qed
    qed
  qed
qed

lemma multi_eq:
  "worker_run_multiple h ps self chs wr rs
     = worker_loop ps (calls_body h (round_calls ps self chs)
         (\<lambda>r. sum_list (map (\<lambda>(q, m). counted (polled r q)) (round_calls ps self chs)) = 0)) wr rs"
proof (induction rs arbitrary: wr)
  case Nil
  show ?case by simp
next
  case (Cons r rs)
  show ?case
    by (simp only: multi_step worker_loop.simps Cons.IH)
qed

lemma unat_succ_below:
  fixes w d :: "64 word"
  assumes "w < d"
  shows "unat (w + 1) = Suc (unat w)"
proof -
  from assms have "unat w < unat d" by (simp add: word_less_nat_alt)
  moreover have "unat d < 2 ^ 64" using unsigned_less [of d] by simp
  ultimately have "unat w + unat (1::64 word) < 2 ^ LENGTH(64)" by simp
  then have "unat (w + 1) = unat w + unat (1::64 word)" by (simp only: unat_add_lem)
  then show ?thesis by simp
qed

lemma div_add_self_nat: "0 < d \<Longrightarrow> (d + x) div d = Suc (x div d)" for d x :: nat
  by (subst div_add_self1) simp_all

lemma filter_not_delay:
  "filter is_delay a = [] \<Longrightarrow> filter (\<lambda>x. \<not> is_delay x) a = a"
  by (induction a) (simp_all split: if_splits)

lemma loop_quiet_step:
  assumes "seen_state p \<noteq> stopping" and "B p = (Inr b, a)"
  shows "worker_loop ps B wr (p # rs) =
     (fst (worker_loop ps B
            (if b then (if wr \<ge> delay_rounds ps then 0 else wr) + 1
             else (if wr \<ge> delay_rounds ps then 0 else wr)) rs),
      (if wr \<ge> delay_rounds ps then [Delay (worker_delay ps)] else []) @ a
      @ snd (worker_loop ps B
            (if b then (if wr \<ge> delay_rounds ps then 0 else wr) + 1
             else (if wr \<ge> delay_rounds ps then 0 else wr)) rs))"
  using assms by simp

lemma loop_end_step:
  assumes "seen_state r = stopping \<or> (\<exists>x. fst (B r) = Inl x)"
  shows "worker_loop ps B wr (r # rs) =
     (if seen_state r = stopping then (Some Returned, [])
      else (Some (Terminated (projl (fst (B r)))),
            (if wr \<ge> delay_rounds ps then [Delay (worker_delay ps)] else []) @ snd (B r)))"
proof (cases "seen_state r = stopping")
  case True
  then show ?thesis by simp
next
  case False
  with assms obtain x where "fst (B r) = Inl x" by blast
  then obtain a where Br: "B r = (Inl x, a)" by (cases "B r") simp
  show ?thesis using False by (simp add: Br)
qed

lemma loop_aggregate:
  fixes wr :: "64 word"
  assumes quiet: "\<forall>p \<in> set pre. seen_state p \<noteq> stopping \<and> (\<exists>b. fst (B p) = Inr b)"
    and fin: "seen_state r = stopping \<or> (\<exists>x. fst (B r) = Inl x)"
    and nod: "\<And>r. filter is_delay (snd (B r)) = []"
    and dpos': "0 < delay_rounds ps" and wrle: "wr \<le> delay_rounds ps"
  shows "fst (worker_loop ps B wr (pre @ r # post))
           = Some (if seen_state r = stopping then Returned else Terminated (projl (fst (B r))))
       \<and> filter (\<lambda>a. \<not> is_delay a) (snd (worker_loop ps B wr (pre @ r # post)))
           = concat (map (\<lambda>r. snd (B r)) (if seen_state r = stopping then pre else pre @ [r]))
       \<and> filter is_delay (snd (worker_loop ps B wr (pre @ r # post)))
           = replicate
               (if (if seen_state r = stopping then pre else pre @ [r]) = [] then 0
                else (unat wr + length (filter (\<lambda>r. fst (B r) = Inr True)
                        (butlast (if seen_state r = stopping then pre else pre @ [r]))))
                     div unat (delay_rounds ps))
               (Delay (worker_delay ps))"
  using quiet wrle
proof (induction pre arbitrary: wr)
  case Nil
  let ?d = "delay_rounds ps"
  have dpos: "0 < unat ?d" using dpos' by (simp add: word_less_nat_alt)
  have wle: "unat wr \<le> unat ?d" using Nil.prems(2) by (simp add: word_le_nat_alt)
  have del: "wr \<ge> ?d \<longleftrightarrow> unat wr = unat ?d" using wle by (auto simp: word_le_nat_alt)
  have dv: "unat wr div unat ?d = (if wr \<ge> ?d then 1 else 0)"
    using del dpos wle by (auto simp: div_eq_0_iff)
  show ?case
    by (simp add: loop_end_step [where B = B and r = r, OF fin] nod filter_not_delay dv
          del: worker_loop.simps)
next
  case (Cons p pre)
  let ?d = "delay_rounds ps"
  let ?delayed = "wr \<ge> ?d"
  let ?wr1 = "if ?delayed then 0 else wr"
  let ?E = "if seen_state r = stopping then pre else pre @ [r]"
  from Cons.prems(1) have ns: "seen_state p \<noteq> stopping"
    and rest: "\<forall>p \<in> set pre. seen_state p \<noteq> stopping \<and> (\<exists>b. fst (B p) = Inr b)"
    by simp_all
  from Cons.prems(1) obtain b where fb: "fst (B p) = Inr b" by auto
  then have Bp: "B p = (Inr b, snd (B p))" by (cases "B p") simp
  let ?wr2 = "if b then ?wr1 + 1 else ?wr1"
  let ?acts1 = "if ?delayed then [Delay (worker_delay ps)] else []"
  have lt: "?wr1 < ?d" using dpos' Cons.prems(2) by auto
  have le2: "?wr2 \<le> ?d"
  proof (cases b)
    case True
    from lt have "?wr1 + 1 \<le> ?d" by (rule inc_le)
    with True show ?thesis by simp
  next
    case False
    from lt have "?wr1 \<le> ?d" by (rule less_imp_le)
    with False show ?thesis by simp
  qed
  define sp where "sp = (if b then 1 else (0::nat))"
  have u2: "unat ?wr2 = unat ?wr1 + sp"
    using unat_succ_below [OF lt] by (simp add: sp_def)
  let ?rec = "worker_loop ps B ?wr2 (pre @ r # post)"
  note IH = Cons.IH [OF rest le2]
  have res: "worker_loop ps B wr ((p # pre) @ r # post)
      = (fst ?rec, ?acts1 @ snd (B p) @ snd ?rec)"
    using loop_quiet_step [where B = B and p = p and b = b and a = "snd (B p)" and ps = ps
            and wr = wr and rs = "pre @ r # post", OF ns Bp] by simp
  have dpos: "0 < unat ?d" using dpos' by (simp add: word_less_nat_alt)
  have wle: "unat wr \<le> unat ?d" using Cons.prems(2) by (simp add: word_le_nat_alt)
  have del: "?delayed \<longleftrightarrow> unat wr = unat ?d" using wle by (auto simp: word_le_nat_alt)
  define S where "S = length (filter (\<lambda>r. fst (B r) = Inr True) (butlast ?E))"
  have d3: "filter is_delay (snd ?rec)
      = replicate (if ?E = [] then 0 else (unat ?wr2 + S) div unat ?d) (Delay (worker_delay ps))"
    using IH unfolding S_def by blast
  have c3: "filter (\<lambda>a. \<not> is_delay a) (snd ?rec) = concat (map (\<lambda>r. snd (B r)) ?E)"
    using IH by blast
  have e3: "fst ?rec = Some (if seen_state r = stopping then Returned else Terminated (projl (fst (B r))))"
    using IH by blast
  have Ep: "(if seen_state r = stopping then p # pre else (p # pre) @ [r]) = p # ?E"
    by simp
  have da: "filter is_delay (?acts1 @ snd (B p) @ snd ?rec)
      = replicate ((if ?delayed then 1 else 0) + (if ?E = [] then 0 else (unat ?wr2 + S) div unat ?d))
          (Delay (worker_delay ps))"
    using d3 nod [of p] by (simp add: replicate_add [symmetric] del: replicate_add)
  have cnt: "(if ?delayed then 1 else 0) + (if ?E = [] then 0 else (unat ?wr2 + S) div unat ?d)
      = (unat wr + length (filter (\<lambda>r. fst (B r) = Inr True) (butlast (p # ?E)))) div unat ?d"
  proof (cases "?E = []")
    case True
    have "unat wr div unat ?d = (if ?delayed then 1 else 0)"
      using del dpos wle by (auto simp: div_eq_0_iff)
    then show ?thesis using True by simp
  next
    case False
    have b: "length (filter (\<lambda>r. fst (B r) = Inr True) (butlast (p # ?E))) = sp + S"
      using False fb by (simp add: S_def sp_def)
    show ?thesis
    proof (cases ?delayed)
      case True
      then have w: "unat wr = unat ?d" using del by simp
      have "unat ?wr2 = sp" using True u2 by simp
      moreover have "(unat ?d + (sp + S)) div unat ?d = Suc ((sp + S) div unat ?d)"
        using dpos by (simp add: div_add_self_nat)
      ultimately show ?thesis using True False b w by simp
    next
      case F: False
      then have "unat ?wr2 = unat wr + sp" using u2 by simp
      then show ?thesis using F False b by (simp add: add.assoc)
    qed
  qed
  have c: "filter (\<lambda>a. \<not> is_delay a) (?acts1 @ snd (B p) @ snd ?rec)
      = concat (map (\<lambda>r. snd (B r)) (p # ?E))"
    using c3 filter_not_delay [OF nod [of p]] by simp
  show ?case
    unfolding res Ep fst_conv snd_conv
    using e3 c da cnt by simp
qed

lemma loop_aggregate0:
  fixes wr :: "64 word"
  assumes quiet: "\<forall>p \<in> set pre. seen_state p \<noteq> stopping \<and> (\<exists>b. fst (B p) = Inr b)"
    and fin: "seen_state r = stopping \<or> (\<exists>x. fst (B r) = Inl x)"
    and nod: "\<And>r. filter is_delay (snd (B r)) = []"
    and d0: "delay_rounds ps = 0"
  shows "fst (worker_loop ps B wr (pre @ r # post))
           = Some (if seen_state r = stopping then Returned else Terminated (projl (fst (B r))))
       \<and> filter (\<lambda>a. \<not> is_delay a) (snd (worker_loop ps B wr (pre @ r # post)))
           = concat (map (\<lambda>r. snd (B r)) (if seen_state r = stopping then pre else pre @ [r]))
       \<and> filter is_delay (snd (worker_loop ps B wr (pre @ r # post)))
           = replicate (length (if seen_state r = stopping then pre else pre @ [r]))
               (Delay (worker_delay ps))"
  using quiet
proof (induction pre arbitrary: wr)
  case Nil
  show ?case
    by (simp add: loop_end_step [where B = B and r = r, OF fin] nod filter_not_delay d0
          del: worker_loop.simps)
next
  case (Cons p pre)
  from Cons.prems(1) have ns: "seen_state p \<noteq> stopping"
    and rest: "\<forall>p \<in> set pre. seen_state p \<noteq> stopping \<and> (\<exists>b. fst (B p) = Inr b)"
    by simp_all
  from Cons.prems(1) obtain b where fb: "fst (B p) = Inr b" by auto
  then have Bp: "B p = (Inr b, snd (B p))" by (cases "B p") simp
  let ?wr2 = "if b then 0 + 1 else (0 :: 64 word)"
  let ?rec = "worker_loop ps B ?wr2 (pre @ r # post)"
  note IH = Cons.IH [OF rest, of ?wr2]
  have res: "worker_loop ps B wr ((p # pre) @ r # post)
      = (fst ?rec, [Delay (worker_delay ps)] @ snd (B p) @ snd ?rec)"
    using loop_quiet_step [where B = B and p = p and b = b and a = "snd (B p)" and ps = ps
            and wr = wr and rs = "pre @ r # post", OF ns Bp] d0 by simp
  show ?case
    unfolding res fst_conv snd_conv
    using IH nod [of p] filter_not_delay [OF nod [of p]] by simp
qed

lemma calls_body_fst_None:
  "first_escaping h cs (polled r) = None \<Longrightarrow> fst (calls_body h cs f r) = Inr (f r)"
  by (simp add: calls_body_def)

lemma calls_body_fst_Some:
  "first_escaping h cs (polled r) = Some kx \<Longrightarrow> fst (calls_body h cs f r) = Inl (snd kx)"
  by (cases kx) (simp add: calls_body_def)

lemma calls_body_snd: "snd (calls_body h cs f r) = round_acts h cs r"
  by (simp add: calls_body_def round_acts_def split: option.splits)

lemma poll_log_no_delay: "filter is_delay (poll_log h q m res) = []"
  by (simp add: poll_log_def split: poll_result.splits exn.splits option.splits)

lemma round_log_no_delay: "filter is_delay (round_log h cs r) = []"
proof (induction cs)
  case Nil
  show ?case by (simp add: round_log_Nil)
next
  case (Cons c cs)
  obtain q m where c: "c = (q, m)" by (cases c)
  show ?case using Cons.IH by (simp add: c round_log_Cons poll_log_no_delay)
qed

lemma round_acts_no_delay: "filter is_delay (round_acts h cs r) = []"
  by (simp add: round_acts_def round_log_no_delay split: option.splits)

lemma calls_aggregate:
  assumes quiet: "\<forall>p \<in> set pre. seen_state p \<noteq> stopping \<and> first_escaping h cs (polled p) = None"
    and fin: "seen_state r = stopping \<or> first_escaping h cs (polled r) \<noteq> None"
  shows "fst (worker_loop ps (calls_body h cs f) 0 (pre @ r # post))
           = Some (if seen_state r = stopping then Returned
                   else Terminated (snd (the (first_escaping h cs (polled r)))))
       \<and> filter (\<lambda>a. \<not> is_delay a) (snd (worker_loop ps (calls_body h cs f) 0 (pre @ r # post)))
           = concat (map (round_acts h cs) (if seen_state r = stopping then pre else pre @ [r]))
       \<and> filter is_delay (snd (worker_loop ps (calls_body h cs f) 0 (pre @ r # post)))
           = replicate
               (if delay_rounds ps = 0
                then length (if seen_state r = stopping then pre else pre @ [r])
                else length (filter f (butlast (if seen_state r = stopping then pre else pre @ [r])))
                     div unat (delay_rounds ps))
               (Delay (worker_delay ps))"
proof -
  let ?B = "calls_body h cs f"
  let ?E = "if seen_state r = stopping then pre else pre @ [r]"
  have q: "\<forall>p \<in> set pre. seen_state p \<noteq> stopping \<and> (\<exists>b. fst (?B p) = Inr b)"
    using quiet by (simp add: calls_body_fst_None)
  have fn: "seen_state r = stopping \<or> (\<exists>x. fst (?B r) = Inl x)"
    using fin by (auto simp: calls_body_fst_Some)
  have nod: "\<And>r. filter is_delay (snd (?B r)) = []"
    by (simp add: calls_body_snd round_acts_no_delay)
  have pj: "seen_state r \<noteq> stopping \<Longrightarrow>
      projl (fst (?B r)) = snd (the (first_escaping h cs (polled r)))"
    using fin by (auto simp: calls_body_fst_Some)
  have mp: "(\<lambda>r. snd (?B r)) = round_acts h cs"
    by (rule ext) (simp add: calls_body_snd)
  have sub: "set (butlast ?E) \<subseteq> set pre"
    by (auto dest: in_set_butlastD)
  have fl: "filter (\<lambda>r. fst (?B r) = Inr True) (butlast ?E) = filter f (butlast ?E)"
  proof (rule filter_cong [OF refl])
    fix p assume "p \<in> set (butlast ?E)"
    with sub have "p \<in> set pre" by blast
    with quiet have "first_escaping h cs (polled p) = None" by blast
    then show "(fst (?B p) = Inr True) = f p" by (simp add: calls_body_fst_None)
  qed
  show ?thesis
  proof (cases "delay_rounds ps = 0")
    case True
    from loop_aggregate0 [where B = ?B and pre = pre and r = r and ps = ps and wr = 0
        and post = post, OF q fn nod True]
    show ?thesis using True pj unfolding mp by (simp split: if_splits)
  next
    case False
    then have dpos: "0 < delay_rounds ps" by (simp add: word_greater_zero_iff)
    have z: "(0::64 word) \<le> delay_rounds ps" by simp
    have e0: "?E = [] \<Longrightarrow> length (filter f (butlast ?E)) div unat (delay_rounds ps) = 0"
      by (simp split: if_splits)
    from loop_aggregate [where B = ?B and pre = pre and r = r and ps = ps and wr = 0
        and post = post, OF q fn nod dpos z]
    show ?thesis using False pj e0 unfolding mp fl by (simp split: if_splits)
  qed
qed

lemma worker_run_regime:
  assumes cls: "worker_get_child_contexts_to_run ns n ps = Some chs"
    and some: "self_context ns n ps \<noteq> None \<or> chs \<noteq> []"
  shows "worker_run handler ns n ps rounds =
     Some (if chs = [] \<or> (length chs = 1 \<and> self_context ns n ps = None)
           then worker_run_single handler ps
                  (case self_context ns n ps of Some q \<Rightarrow> q | None \<Rightarrow> hd chs) 0 rounds
           else worker_run_multiple handler ps (self_context ns n ps) chs 0 rounds)"
proof (cases "self_context ns n ps")
  case None
  with some have ne: "chs \<noteq> []" by simp
  then have "length chs = 1 \<or> length chs > 1" by (cases chs) auto
  then show ?thesis using cls None ne by (auto simp: worker_run_def Let_def)
next
  case (Some q)
  show ?thesis using cls Some by (simp add: worker_run_def Let_def)
qed

text \<open>
  Claim C3, as the code has it. Let \<open>chs\<close> be the child queues of a worker and let it
  have some queue. With no child queue, or with one child queue and no queue of its own,
  the calls of a round are one call of \<open>run\<close> on that queue, and a round counts as idle
  when the queue is stopped after it; in every other case the calls of a round are those
  of \<open>round_calls\<close> (the poll of the own queue, then of every child queue), and a round counts
  as idle when all of them together executed no task. The worker makes these calls round
  after round. It returns in the first round in which it reads the state \<open>stopping\<close>; and
  it ends in the first round in which an exception leaves a call (thrown by the exception
  handler, or by a task and no \<open>std::exception\<close>), at that call and with that exception,
  whatever the state is. It calls \<open>worker_delay_\<close> once for every \<open>delay_rounds\<close> idle
  rounds (in every round if \<open>delay_rounds\<close> is 0), which yields, sleeps for \<open>delay_value\<close>,
  or does nothing, by the delay policy.
\<close>

theorem worker_regimes:
  assumes cls: "worker_get_child_contexts_to_run ns n ps = Some chs"
    and some: "self_context ns n ps \<noteq> None \<or> chs \<noteq> []"
    and single: "single = (chs = [] \<or> (length chs = 1 \<and> self_context ns n ps = None))"
    and calls: "calls = (if single
                         then [(case self_context ns n ps of Some q \<Rightarrow> q | None \<Rightarrow> hd chs, Run)]
                         else round_calls ps (self_context ns n ps) chs)"
    and no_task: "no_task = (\<lambda>r. if single then stopped_after r (fst (hd calls))
                              else sum_list (map (\<lambda>(q, m). counted (polled r q)) calls) = 0)"
    and quiet: "\<forall>p \<in> set pre. seen_state p \<noteq> stopping
                   \<and> first_escaping handler calls (polled p) = None"
    and fin: "seen_state r = stopping \<or> first_escaping handler calls (polled r) \<noteq> None"
    and executed: "executed = (if seen_state r = stopping then pre else pre @ [r])"
  shows "(\<exists>acts.
            worker_run handler ns n ps (pre @ r # post)
              = Some (Some (if seen_state r = stopping then Returned
                            else Terminated (snd (the (first_escaping handler calls (polled r))))),
                      acts)
          \<and> filter (\<lambda>a. \<not> is_delay a) acts = concat (map (round_acts handler calls) executed)
          \<and> filter is_delay acts
              = replicate
                  (if delay_rounds ps = 0 then length executed
                   else length (filter no_task (butlast executed)) div unat (delay_rounds ps))
                  (Delay (worker_delay ps)))
       \<and> worker_delay ps
           = (if delay_policy ps = delay_yield then Yield_Pause
              else if delay_policy ps = delay_sleep then Sleep_Pause (delay_value ps)
              else No_Pause)
       \<and> worker_get_poll_method pol
           = (if pol = poll_one then Some Poll_One
              else if pol = poll_all then Some Poll
              else if pol = run_one then Some Run_One
              else None)"
proof (intro conjI)
  show "worker_delay ps
           = (if delay_policy ps = delay_yield then Yield_Pause
              else if delay_policy ps = delay_sleep then Sleep_Pause (delay_value ps)
              else No_Pause)"
    by (simp add: worker_delay_def delay_no_delay_def delay_yield_def delay_sleep_def)
  show "worker_get_poll_method pol
           = (if pol = poll_one then Some Poll_One
              else if pol = poll_all then Some Poll
              else if pol = run_one then Some Run_One
              else None)"
    by (simp add: worker_get_poll_method_def disabled_def poll_one_def poll_all_def run_one_def)
  let ?rounds = "pre @ r # post"
  have "\<exists>f. worker_run handler ns n ps ?rounds = Some (worker_loop ps (calls_body handler calls f) 0 ?rounds)
      \<and> (\<forall>p. f p = no_task p)"
  proof (cases single)
    case True
    let ?q = "case self_context ns n ps of Some q \<Rightarrow> q | None \<Rightarrow> hd chs"
    have c: "calls = [(?q, Run)]" using True calls by simp
    have sg: "chs = [] \<or> (length chs = 1 \<and> self_context ns n ps = None)"
      using True single by blast
    have "worker_run handler ns n ps ?rounds = Some (worker_run_single handler ps ?q 0 ?rounds)"
      using worker_run_regime [OF cls some, of handler ?rounds] by (simp only: sg if_True)
    then have "worker_run handler ns n ps ?rounds
        = Some (worker_loop ps (calls_body handler calls (\<lambda>r. stopped_after r ?q)) 0 ?rounds)"
      by (simp only: single_eq c)
    moreover have "\<forall>p. stopped_after p ?q = no_task p"
      using True no_task c by simp
    ultimately show ?thesis by blast
  next
    case False
    have c: "calls = round_calls ps (self_context ns n ps) chs" using False calls by simp
    have sg: "\<not> (chs = [] \<or> (length chs = 1 \<and> self_context ns n ps = None))"
      using False single by blast
    have "worker_run handler ns n ps ?rounds
        = Some (worker_run_multiple handler ps (self_context ns n ps) chs 0 ?rounds)"
      using worker_run_regime [OF cls some, of handler ?rounds] by (simp only: sg if_False)
    then have "worker_run handler ns n ps ?rounds
        = Some (worker_loop ps (calls_body handler calls
                 (\<lambda>r. sum_list (map (\<lambda>(q, m). counted (polled r q)) calls) = 0)) 0 ?rounds)"
      by (simp only: multi_eq c)
    moreover have "\<forall>p. (sum_list (map (\<lambda>(q, m). counted (polled p q)) calls) = 0) = no_task p"
      using False no_task by simp
    ultimately show ?thesis by blast
  qed
  then obtain f where
    run: "worker_run handler ns n ps ?rounds = Some (worker_loop ps (calls_body handler calls f) 0 ?rounds)"
    and f: "\<forall>p. f p = no_task p" by blast
  from f have fe: "f = no_task" by (simp add: fun_eq_iff)
  let ?res = "worker_loop ps (calls_body handler calls no_task) 0 ?rounds"
  note agg = calls_aggregate [where h = handler and cs = calls and pre = pre and r = r
      and ps = ps and f = no_task and post = post, OF quiet fin]
  have "worker_run handler ns n ps ?rounds = Some (fst ?res, snd ?res)"
    using run fe by simp
  then show "\<exists>acts.
            worker_run handler ns n ps (pre @ r # post)
              = Some (Some (if seen_state r = stopping then Returned
                            else Terminated (snd (the (first_escaping handler calls (polled r))))),
                      acts)
          \<and> filter (\<lambda>a. \<not> is_delay a) acts = concat (map (round_acts handler calls) executed)
          \<and> filter is_delay acts
              = replicate
                  (if delay_rounds ps = 0 then length executed
                   else length (filter no_task (butlast executed)) div unat (delay_rounds ps))
                  (Delay (worker_delay ps))"
    using agg unfolding executed by (intro exI [where x = "snd ?res"]) simp
qed

lemma single_step:
  "worker_run_single h ps q wr (r # rs) =
     (if seen_state r = stopping then (Some Returned, [])
      else (case escaping h (polled r q) of
              Some x \<Rightarrow>
                (Some (Terminated x),
                 (if wr \<ge> delay_rounds ps then [Delay (worker_delay ps)] else [])
                 @ poll_log h q Run (polled r q))
            | None \<Rightarrow>
                (fst (worker_run_single h ps q
                        (if stopped_after r q then (if wr \<ge> delay_rounds ps then 0 else wr) + 1
                         else (if wr \<ge> delay_rounds ps then 0 else wr)) rs),
                 (if wr \<ge> delay_rounds ps then [Delay (worker_delay ps)] else [])
                 @ poll_log h q Run (polled r q)
                 @ snd (worker_run_single h ps q
                        (if stopped_after r q then (if wr \<ge> delay_rounds ps then 0 else wr) + 1
                         else (if wr \<ge> delay_rounds ps then 0 else wr)) rs))))"
  by (simp add: poll_context_eq Let_def split_beta split: option.splits)

text \<open>
  Claim C7, as the code has it, for every call of a member function on a queue, in
  \<open>worker_poll_context_\<close>, in the \<open>for\<close> of \<open>worker_poll_contexts_\<close> and in a round of
  either loop. A call that returns counts for what it returns. If a task throws a
  \<open>std::exception\<close>, it is caught: without an exception handler it is dropped, with one
  the handler is called with it; if the handler returns, the call counts for 0 tasks,
  and the \<open>for\<close> and the loop go on; if the handler throws, its exception leaves the call,
  the \<open>for\<close> and the loop, and ends the worker. An exception of a task that is no
  \<open>std::exception\<close> is not caught and ends the worker in the same way. So a round of a
  loop makes its calls up to the first one that lets an exception out, and ends the
  worker there; with no such call it makes all of them and goes on with the next round.
\<close>

theorem task_exception_policy:
  assumes "seen_state r \<noteq> stopping"
  shows "worker_poll_context handler q m (Executed k) = (Inr k, [Call q m])
       \<and> worker_poll_context None q m (Threw (Std_Exception w)) = (Inr 0, [Call q m])
       \<and> worker_poll_context (Some f) q m (Threw (Std_Exception w))
           = ((case f w of None \<Rightarrow> Inr 0 | Some x \<Rightarrow> Inl x), [Call q m, Sink w])
       \<and> worker_poll_context handler q m (Threw Other_Exception)
           = (Inl Other_Exception, [Call q m])
       \<and> worker_poll_context handler q m res
           = ((case escaping handler res of Some x \<Rightarrow> Inl x | None \<Rightarrow> Inr (counted res)),
              poll_log handler q m res)
       \<and> worker_poll_contexts handler qs m (polled r) executed
           = (case first_escaping handler (map (\<lambda>q. (q, m)) qs) (polled r) of
                Some (k, x) \<Rightarrow> (Inl x, round_log handler (take (Suc k) (map (\<lambda>q. (q, m)) qs)) r)
              | None \<Rightarrow> (Inr (executed + sum_list (map (\<lambda>q. counted (polled r q)) qs)),
                         round_log handler (map (\<lambda>q. (q, m)) qs) r))
       \<and> (let delay = (if wr \<ge> delay_rounds ps then [Delay (worker_delay ps)] else []);
               wr1 = (if wr \<ge> delay_rounds ps then 0 else wr);
               wr2 = (if stopped_after r q then wr1 + 1 else wr1)
           in worker_run_single handler ps q wr (r # rs)
                = (case escaping handler (polled r q) of
                     Some x \<Rightarrow> (Some (Terminated x), delay @ poll_log handler q Run (polled r q))
                   | None \<Rightarrow>
                       (fst (worker_run_single handler ps q wr2 rs),
                        delay @ poll_log handler q Run (polled r q)
                        @ snd (worker_run_single handler ps q wr2 rs))))
       \<and> (let calls = round_calls ps self chs;
               delay = (if wr \<ge> delay_rounds ps then [Delay (worker_delay ps)] else []);
               wr1 = (if wr \<ge> delay_rounds ps then 0 else wr);
               wr2 = (if sum_list (map (\<lambda>(q, m). counted (polled r q)) calls) = 0
                      then wr1 + 1 else wr1)
           in worker_run_multiple handler ps self chs wr (r # rs)
                = (case first_escaping handler calls (polled r) of
                     Some (k, x) \<Rightarrow>
                       (Some (Terminated x), delay @ round_log handler (take (Suc k) calls) r)
                   | None \<Rightarrow>
                       (fst (worker_run_multiple handler ps self chs wr2 rs),
                        delay @ round_log handler calls r
                        @ snd (worker_run_multiple handler ps self chs wr2 rs))))"
proof (intro conjI)
  show "worker_poll_context handler q m (Executed k) = (Inr k, [Call q m])"
    by (simp add: worker_poll_context_def)
  show "worker_poll_context None q m (Threw (Std_Exception w)) = (Inr 0, [Call q m])"
    by (simp add: worker_poll_context_def)
  show "worker_poll_context (Some f) q m (Threw (Std_Exception w))
           = ((case f w of None \<Rightarrow> Inr 0 | Some x \<Rightarrow> Inl x), [Call q m, Sink w])"
    by (simp add: worker_poll_context_def split: option.splits)
  show "worker_poll_context handler q m (Threw Other_Exception)
           = (Inl Other_Exception, [Call q m])"
    by (simp add: worker_poll_context_def)
  show "worker_poll_context handler q m res
           = ((case escaping handler res of Some x \<Rightarrow> Inl x | None \<Rightarrow> Inr (counted res)),
              poll_log handler q m res)"
    by (rule poll_context_eq)
  show "worker_poll_contexts handler qs m (polled r) executed
           = (case first_escaping handler (map (\<lambda>q. (q, m)) qs) (polled r) of
                Some (k, x) \<Rightarrow> (Inl x, round_log handler (take (Suc k) (map (\<lambda>q. (q, m)) qs)) r)
              | None \<Rightarrow> (Inr (executed + sum_list (map (\<lambda>q. counted (polled r q)) qs)),
                         round_log handler (map (\<lambda>q. (q, m)) qs) r))"
    by (rule poll_contexts_eq)
  show "(let delay = (if wr \<ge> delay_rounds ps then [Delay (worker_delay ps)] else []);
               wr1 = (if wr \<ge> delay_rounds ps then 0 else wr);
               wr2 = (if stopped_after r q then wr1 + 1 else wr1)
           in worker_run_single handler ps q wr (r # rs)
                = (case escaping handler (polled r q) of
                     Some x \<Rightarrow> (Some (Terminated x), delay @ poll_log handler q Run (polled r q))
                   | None \<Rightarrow>
                       (fst (worker_run_single handler ps q wr2 rs),
                        delay @ poll_log handler q Run (polled r q)
                        @ snd (worker_run_single handler ps q wr2 rs))))"
    unfolding Let_def single_step using assms by (simp split: option.splits)
  show "(let calls = round_calls ps self chs;
               delay = (if wr \<ge> delay_rounds ps then [Delay (worker_delay ps)] else []);
               wr1 = (if wr \<ge> delay_rounds ps then 0 else wr);
               wr2 = (if sum_list (map (\<lambda>(q, m). counted (polled r q)) calls) = 0
                      then wr1 + 1 else wr1)
           in worker_run_multiple handler ps self chs wr (r # rs)
                = (case first_escaping handler calls (polled r) of
                     Some (k, x) \<Rightarrow>
                       (Some (Terminated x), delay @ round_log handler (take (Suc k) calls) r)
                   | None \<Rightarrow>
                       (fst (worker_run_multiple handler ps self chs wr2 rs),
                        delay @ round_log handler calls r
                        @ snd (worker_run_multiple handler ps self chs wr2 rs))))"
    unfolding Let_def multi_step using assms
    by (simp add: calls_body_def split: option.splits)
qed

lemma round_calls_root:
  "round_calls default_parameters (Some 0) [1] = [(0, Poll), (1, Poll_One)]"
  by (simp add: round_calls_def worker_get_poll_method_def default_parameters_def
        disabled_def poll_one_def poll_all_def run_one_def)

lemma round_calls_root_Suc:
  "round_calls default_parameters (Some 0) [Suc 0] = [(0, Poll), (Suc 0, Poll_One)]"
  using round_calls_root by simp

lemma nodes3_root_children:
  "worker_get_child_contexts_to_run nodes3 0 default_parameters = Some [1]"
  by (simp add: worker_get_child_contexts_to_run_def default_parameters_def disabled_def
        poll_one_def nodes3_def collect_child_contexts.simps)

lemma nodes3_root_self: "self_context nodes3 0 default_parameters = Some 0"
  by (simp add: self_context_def default_parameters_def disabled_def poll_all_def nodes3_def)

lemma default_delay_rounds: "delay_rounds default_parameters = 1"
  by (simp add: default_parameters_def)

lemma default_worker_delay: "worker_delay default_parameters = Yield_Pause"
  by (simp add: worker_delay_def default_parameters_def delay_no_delay_def delay_yield_def)

text \<open>
  The theorem at a round in which a task of every queue throws a \<open>std::exception\<close>: with a
  handler that returns both loops go on to the next round, and with a handler that throws
  the multi-queue loop ends at its first call.
\<close>

theorem task_exception_policy_witness:
  "seen_state round_throwing \<noteq> stopping
   \<and> worker_run_multiple (Some (\<lambda>w. None)) default_parameters (Some 0) [1] 0
        [round_throwing, round_stopping]
     = (Some Returned, [Call 0 Poll, Sink ''boom'', Call 1 Poll_One, Sink ''boom''])
   \<and> worker_run_single (Some (\<lambda>w. None)) default_parameters 0 0 [round_throwing, round_stopping]
     = (Some Returned, [Call 0 Run, Sink ''boom''])
   \<and> worker_run_multiple (Some (\<lambda>w. Some (Std_Exception w))) default_parameters (Some 0) [1] 0
        [round_throwing, round_stopping]
     = (Some (Terminated (Std_Exception ''boom'')), [Call 0 Poll, Sink ''boom''])"
proof -
  have h1: "seen_state round_throwing \<noteq> stopping" by (simp add: round_throwing_def)
  have p: "polled round_throwing = (\<lambda>q. Threw (Std_Exception ''boom''))"
    by (simp add: round_throwing_def)
  have n: "\<not> stopped_after round_throwing 0" by (simp add: round_throwing_def)
  have s1: "worker_run_single h default_parameters 0 wr [round_stopping] = (Some Returned, [])"
    for h wr by (simp add: round_stopping_def)
  have sn: "worker_run_multiple h default_parameters (Some 0) [1] wr [round_stopping]
      = (Some Returned, [])" for h wr by (simp add: round_stopping_def)
  have sn': "worker_run_multiple h default_parameters (Some 0) [Suc 0] wr [round_stopping]
      = (Some Returned, [])" for h wr by (simp add: round_stopping_def)
  from task_exception_policy [OF h1, where handler = "Some (\<lambda>w. None)" and q = 0
      and m = Poll_One and k = 1 and w = "''boom''" and f = "\<lambda>w. None"
      and res = "Threw Other_Exception" and qs = "[1]" and executed = 0
      and ps = default_parameters and wr = 0 and rs = "[round_stopping]"
      and self = "Some 0" and chs = "[1]"]
  have a: "worker_run_multiple (Some (\<lambda>w. None)) default_parameters (Some 0) [1] 0
        [round_throwing, round_stopping]
     = (Some Returned, [Call 0 Poll, Sink ''boom'', Call 1 Poll_One, Sink ''boom''])"
    "worker_run_single (Some (\<lambda>w. None)) default_parameters 0 0 [round_throwing, round_stopping]
     = (Some Returned, [Call 0 Run, Sink ''boom''])"
    by (simp_all add: Let_def round_calls_root round_calls_root_Suc default_delay_rounds p n s1 sn sn' escaping_def
          counted_def poll_log_def round_log_def
          del: worker_run_single.simps worker_run_multiple.simps)
  from task_exception_policy [OF h1, where handler = "Some (\<lambda>w. Some (Std_Exception w))" and q = 0
      and m = Poll_One and k = 1 and w = "''boom''" and f = "\<lambda>w. None"
      and res = "Threw Other_Exception" and qs = "[1]" and executed = 0
      and ps = default_parameters and wr = 0 and rs = "[round_stopping]"
      and self = "Some 0" and chs = "[1]"]
  have b: "worker_run_multiple (Some (\<lambda>w. Some (Std_Exception w))) default_parameters (Some 0) [1] 0
        [round_throwing, round_stopping]
     = (Some (Terminated (Std_Exception ''boom'')), [Call 0 Poll, Sink ''boom''])"
    by (simp add: Let_def round_calls_root round_calls_root_Suc default_delay_rounds p n s1 sn sn' escaping_def
          counted_def poll_log_def round_log_def
          del: worker_run_single.simps worker_run_multiple.simps)
  from h1 a b show ?thesis by (intro conjI)
qed

text \<open>
  Against claim C7 as stated: a task throws something that is no \<open>std::exception\<close>. The
  exception is not caught and not passed to the exception handler (which would return),
  and the worker ends, in either loop. And without an exception handler a
  \<open>std::exception\<close> is caught but passed to nobody.
\<close>

theorem task_exception_not_caught:
  "worker_poll_context (Some (\<lambda>w. None)) 0 Poll_One (Threw Other_Exception)
     = (Inl Other_Exception, [Call 0 Poll_One])
   \<and> worker_run_single (Some (\<lambda>w. None)) default_parameters 0 0
        [round_throwing_other, round_running, round_stopping]
     = (Some (Terminated Other_Exception), [Call 0 Run])
   \<and> worker_run_multiple (Some (\<lambda>w. None)) default_parameters (Some 0) [1] 0
        [round_throwing_other, round_running, round_stopping]
     = (Some (Terminated Other_Exception), [Call 0 Poll])
   \<and> worker_poll_context None 0 Poll_One (Threw (Std_Exception ''boom''))
     = (Inr 0, [Call 0 Poll_One])"
  by (simp add: worker_poll_context_def round_throwing_other_def default_parameters_def
        worker_get_poll_method_def disabled_def poll_one_def poll_all_def run_one_def)

text \<open>
  Against claim C3 as stated: a worker with its own queue only, in rounds that all read
  the state \<open>running\<close>. A task throws something that is no \<open>std::exception\<close>, or the
  exception handler throws: the worker makes one call of \<open>run\<close> and ends.
\<close>

theorem worker_ends_while_running:
  "worker_get_child_contexts_to_run nodes3 0 (default_parameters\<lparr>children_poll_policy := disabled\<rparr>)
     = Some []
   \<and> self_context nodes3 0 (default_parameters\<lparr>children_poll_policy := disabled\<rparr>) = Some 0
   \<and> map seen_state [round_throwing_other, round_running, round_running]
     = [running, running, running]
   \<and> worker_run None nodes3 0 (default_parameters\<lparr>children_poll_policy := disabled\<rparr>)
        [round_throwing_other, round_running, round_running]
     = Some (Some (Terminated Other_Exception), [Call 0 Run])
   \<and> worker_run (Some (\<lambda>w. Some (Std_Exception w))) nodes3 0
        (default_parameters\<lparr>children_poll_policy := disabled\<rparr>)
        [round_throwing, round_running, round_running]
     = Some (Some (Terminated (Std_Exception ''boom'')), [Call 0 Run, Sink ''boom''])"
proof -
  let ?ps = "default_parameters\<lparr>children_poll_policy := disabled\<rparr>"
  have c: "worker_get_child_contexts_to_run nodes3 0 ?ps = Some []"
    by (simp add: worker_get_child_contexts_to_run_def)
  have s: "self_context nodes3 0 ?ps = Some 0"
    by (simp add: self_context_def default_parameters_def disabled_def poll_all_def nodes3_def)
  have m: "map seen_state [round_throwing_other, round_running, round_running]
     = [running, running, running]"
    by (simp add: round_throwing_other_def round_running_def)
  have d: "delay_rounds ?ps = 1" by (simp add: default_parameters_def)
  have r1: "worker_run None nodes3 0 ?ps [round_throwing_other, round_running, round_running]
     = Some (Some (Terminated Other_Exception), [Call 0 Run])"
    by (simp add: worker_run_def c s Let_def worker_poll_context_def round_throwing_other_def d)
  have r2: "worker_run (Some (\<lambda>w. Some (Std_Exception w))) nodes3 0 ?ps
        [round_throwing, round_running, round_running]
     = Some (Some (Terminated (Std_Exception ''boom'')), [Call 0 Run, Sink ''boom''])"
    by (simp add: worker_run_def c s Let_def worker_poll_context_def round_throwing_def d)
  from c s m r1 r2 show ?thesis by (intro conjI)
qed

text \<open>
  The theorem at a worker of the root of \<open>nodes3\<close> with the default parameters: it has
  its own queue and one child queue, so it polls both in every round; a round in which
  tasks throw is idle, and the round after it begins with a delay.
\<close>

theorem worker_regimes_witness:
  "worker_get_child_contexts_to_run nodes3 0 default_parameters = Some [1]
   \<and> self_context nodes3 0 default_parameters = Some 0
   \<and> round_calls default_parameters (Some 0) [1] = [(0, Poll), (1, Poll_One)]
   \<and> seen_state round_throwing \<noteq> stopping
   \<and> first_escaping None [(0, Poll), (1, Poll_One)] (polled round_throwing) = None
   \<and> seen_state round_running \<noteq> stopping
   \<and> first_escaping None [(0, Poll), (1, Poll_One)] (polled round_running) = None
   \<and> seen_state round_stopping = stopping
   \<and> (\<exists>acts. worker_run None nodes3 0 default_parameters
                 [round_throwing, round_running, round_stopping]
               = Some (Some Returned, acts)
            \<and> filter (\<lambda>a. \<not> is_delay a) acts
               = [Call 0 Poll, Call 1 Poll_One, Call 0 Poll, Call 1 Poll_One]
            \<and> filter is_delay acts = [Delay Yield_Pause])"
proof -
  let ?calls = "[(0, Poll), (1, Poll_One)] :: (nat \<times> poll_method) list"
  let ?no_task = "\<lambda>r. sum_list (map (\<lambda>(q, m). counted (polled r q)) ?calls) = 0"
  have h1: "worker_get_child_contexts_to_run nodes3 0 default_parameters = Some [1]"
    by (rule nodes3_root_children)
  have s: "self_context nodes3 0 default_parameters = Some 0" by (rule nodes3_root_self)
  have h2: "self_context nodes3 0 default_parameters \<noteq> None \<or> [1::nat] \<noteq> []" by simp
  have h3: "False = ([1::nat] = [] \<or> (length [1::nat] = 1 \<and> self_context nodes3 0 default_parameters = None))"
    by (simp add: s)
  have h4: "?calls = (if False
                         then [(case self_context nodes3 0 default_parameters of Some q \<Rightarrow> q | None \<Rightarrow> hd [1], Run)]
                         else round_calls default_parameters (self_context nodes3 0 default_parameters) [1])"
    by (simp add: s round_calls_root_Suc)
  have h5: "?no_task = (\<lambda>r. if False then stopped_after r (fst (hd ?calls))
                              else sum_list (map (\<lambda>(q, m). counted (polled r q)) ?calls) = 0)"
    by simp
  have h6: "\<forall>p \<in> set [round_throwing, round_running]. seen_state p \<noteq> stopping
                   \<and> first_escaping None ?calls (polled p) = None"
    by (simp add: round_throwing_def round_running_def escaping_def)
  have h7: "seen_state round_stopping = stopping" by (simp add: round_stopping_def)
  have h7': "seen_state round_stopping = stopping
      \<or> first_escaping None ?calls (polled round_stopping) \<noteq> None"
    using h7 by simp
  have nt: "?no_task round_throwing" by (simp add: round_throwing_def counted_def)
  have ra: "round_acts None ?calls round_throwing = [Call 0 Poll, Call 1 Poll_One]"
    "round_acts None ?calls round_running = [Call 0 Poll, Call 1 Poll_One]"
    by (simp_all add: round_acts_def round_log_def poll_log_def escaping_def
          round_throwing_def round_running_def)
  from worker_regimes [where ns = nodes3 and n = 0 and ps = default_parameters and chs = "[1]"
      and single = False and calls = ?calls and no_task = ?no_task and handler = None
      and pre = "[round_throwing, round_running]" and r = round_stopping and post = "[]"
      and executed = "[round_throwing, round_running]" and pol = disabled,
      OF h1 h2 h3 h4 h5 h6 h7']
  have "\<exists>acts. worker_run None nodes3 0 default_parameters
                 [round_throwing, round_running, round_stopping]
               = Some (Some Returned, acts)
            \<and> filter (\<lambda>a. \<not> is_delay a) acts
               = [Call 0 Poll, Call 1 Poll_One, Call 0 Poll, Call 1 Poll_One]
            \<and> filter is_delay acts = [Delay Yield_Pause]"
    using h7 nt ra by (simp add: default_delay_rounds default_worker_delay)
  moreover from h6 have "seen_state round_throwing \<noteq> stopping"
    "first_escaping None ?calls (polled round_throwing) = None"
    "seen_state round_running \<noteq> stopping"
    "first_escaping None ?calls (polled round_running) = None"
    by simp_all
  ultimately show ?thesis using h1 s round_calls_root h7 by (intro conjI)
qed

section \<open>Value slots and callers\<close>

lemma value_set_second:
  "ready (slots m p) = 1 \<Longrightarrow>
   value_set p arg m =
     (True, m\<lparr>slots := (slots m)(p := (slots m p)\<lparr>ready := 2, value_v := arg\<rparr>)\<rparr>)"
  by (simp add: value_set_def)

lemma value_set_first:
  "ready (slots m p) = 0 \<Longrightarrow>
   value_set p arg m = (False, m\<lparr>slots := (slots m)(p := (slots m p)\<lparr>ready := 1\<rparr>)\<rparr>)"
  by (simp add: value_set_def)

lemma value_get_first:
  "ready (slots m p) = 0 \<Longrightarrow> coro_alive m (weak_coro_data_ptr (slot_context (slots m p))) \<Longrightarrow>
   value_get p m =
     (Yielded (\<lambda>m'. Inr (value_v (slots m' p))),
      m\<lparr>slots := (slots m)(p := (slots m p)\<lparr>ready := 1\<rparr>)\<rparr>)"
  by (simp add: value_get_def lock_def)

lemma value_get_second:
  "ready (slots m p) = 1 \<Longrightarrow>
   value_get p m =
     (Finished (Inr (value_v (slots m p))),
      m\<lparr>slots := (slots m)(p := (slots m p)\<lparr>ready := 2\<rparr>)\<rparr>)"
  by (simp add: value_get_def)

text \<open>
  Claim C1, as the code has it. Take a slot that neither party has reached (counter 0)
  and a caller bound to it. When the coroutine arrives first, \<open>get\<close> counts to 1 and
  yields; the caller then counts to 2, writes its arguments into the slot and posts the
  resumption to the strand of the coroutine, and the resumed \<open>get\<close> returns what the
  handler stored. When the caller arrives first, it counts to 1 and posts nothing; the
  \<open>get\<close> that follows counts to 2 and finishes without yielding. (What that \<open>get\<close>
  returns is left open here.)
\<close>

theorem caller_and_get_two_step:
  assumes "value_ptr c = Some p"
    and "ready (slots m p) = 0"
    and "coro_alive m (weak_coro_data_ptr (slot_context (slots m p)))"
  shows "(\<exists>k m1 m2.
            value_get p m = (Yielded k, m1) \<and> ready (slots m1 p) = 1
          \<and> caller_call value_set c args m1 = (Inr (), m2)
          \<and> ready (slots m2 p) = 2 \<and> value_v (slots m2 p) = args
          \<and> strand m2 (coro_data_ptr c) = strand m (coro_data_ptr c) @ [Primitive_Caller (coro_data_ptr c)]
          \<and> k m2 = Inr args)
       \<and> (\<exists>m1 r m2.
            caller_call value_set c args m = (Inr (), m1) \<and> ready (slots m1 p) = 1
          \<and> strand m1 = strand m
          \<and> value_get p m1 = (Finished r, m2) \<and> ready (slots m2 p) = 2
          \<and> strand m2 = strand m)"
proof (intro conjI)
  let ?m1 = "m\<lparr>slots := (slots m)(p := (slots m p)\<lparr>ready := 1\<rparr>)\<rparr>"
  have g: "value_get p m = (Yielded (\<lambda>m'. Inr (value_v (slots m' p))), ?m1)"
    using assms(2,3) by (rule value_get_first)
  let ?m2 = "(m\<lparr>slots := (slots m)(p := (slots m p)\<lparr>ready := 2, value_v := args\<rparr>)\<rparr>)
               \<lparr>strand := (strand m)(coro_data_ptr c :=
                   strand m (coro_data_ptr c) @ [Primitive_Caller (coro_data_ptr c)])\<rparr>"
  have r1: "ready (slots ?m1 p) = 1" by simp
  have s: "value_set p args ?m1 =
      (True, ?m1\<lparr>slots := (slots ?m1)(p := (slots ?m1 p)\<lparr>ready := 2, value_v := args\<rparr>)\<rparr>)"
    using r1 by (rule value_set_second)
  have c: "caller_call value_set c args ?m1 = (Inr (), ?m2)"
    by (simp add: caller_call_def assms(1) s continue_def coro_start_def)
  show "\<exists>k m1 m2.
            value_get p m = (Yielded k, m1) \<and> ready (slots m1 p) = 1
          \<and> caller_call value_set c args m1 = (Inr (), m2)
          \<and> ready (slots m2 p) = 2 \<and> value_v (slots m2 p) = args
          \<and> strand m2 (coro_data_ptr c) = strand m (coro_data_ptr c) @ [Primitive_Caller (coro_data_ptr c)]
          \<and> k m2 = Inr args"
    by (rule exI [of _ "\<lambda>m'. Inr (value_v (slots m' p))"], rule exI [of _ ?m1],
        rule exI [of _ ?m2]) (simp add: g c)
next
  let ?m1 = "m\<lparr>slots := (slots m)(p := (slots m p)\<lparr>ready := 1\<rparr>)\<rparr>"
  have s: "value_set p args m = (False, ?m1)"
    using assms(2) by (rule value_set_first)
  have r1: "ready (slots ?m1 p) = 1" by simp
  have g: "value_get p ?m1 =
      (Finished (Inr (value_v (slots ?m1 p))),
       ?m1\<lparr>slots := (slots ?m1)(p := (slots ?m1 p)\<lparr>ready := 2\<rparr>)\<rparr>)"
    using r1 by (rule value_get_second)
  show "\<exists>m1 r m2.
            caller_call value_set c args m = (Inr (), m1) \<and> ready (slots m1 p) = 1
          \<and> strand m1 = strand m
          \<and> value_get p m1 = (Finished r, m2) \<and> ready (slots m2 p) = 2
          \<and> strand m2 = strand m"
    by (rule exI [of _ ?m1], rule exI [of _ "Inr (value_v (slots ?m1 p))"],
        rule exI [of _ "?m1\<lparr>slots := (slots ?m1)(p := (slots ?m1 p)\<lparr>ready := 2\<rparr>)\<rparr>"])
      (simp add: caller_call_def assms(1) s g)
qed

text \<open>
  A memory with one live coroutine record at address 0, nothing posted, and an
  \<open>int\<close> slot at every address that nobody has reached, holding 0; the caller is
  bound to the slot at address 0.
\<close>

definition memory0 :: "int value_slot memory" where
  "memory0 =
     \<lparr> coro_alive = (\<lambda>a. a = 0), strand = (\<lambda>a. []), error_codes = (\<lambda>a. 0),
       slots = (\<lambda>a. new_value 0 \<lparr> weak_coro_data_ptr = 0, ec_ptr = None \<rparr>) \<rparr>"

definition caller0 :: caller where
  "caller0 = \<lparr> coro_data_ptr = 0, value_ptr = Some 0 \<rparr>"

theorem caller_and_get_two_step_witness:
  "value_ptr caller0 = Some 0
   \<and> ready (slots memory0 0) = 0
   \<and> coro_alive memory0 (weak_coro_data_ptr (slot_context (slots memory0 0)))
   \<and> (\<exists>k m1 m2.
            value_get 0 memory0 = (Yielded k, m1) \<and> ready (slots m1 0) = 1
          \<and> caller_call value_set caller0 (42::int) m1 = (Inr (), m2)
          \<and> ready (slots m2 0) = 2 \<and> value_v (slots m2 0) = 42
          \<and> strand m2 (coro_data_ptr caller0)
               = strand memory0 (coro_data_ptr caller0) @ [Primitive_Caller (coro_data_ptr caller0)]
          \<and> k m2 = Inr 42)"
proof -
  have h1: "value_ptr caller0 = Some 0" by (simp add: caller0_def)
  have h2: "ready (slots memory0 0) = 0" by (simp add: memory0_def new_value_def)
  have h3: "coro_alive memory0 (weak_coro_data_ptr (slot_context (slots memory0 0)))"
    by (simp add: memory0_def new_value_def)
  from caller_and_get_two_step [OF h1 h2 h3, of 42] h1 h2 h3 show ?thesis by blast
qed

text \<open>
  Against claim C1 as stated: the handler fires before the coroutine reaches the slot.
  The call \<open>caller(42)\<close> returns normally, but 42 is not in the slot, nothing is posted
  to the strand, and the \<open>get\<close> that follows returns the 0 the slot held from the start.
\<close>

theorem caller_first_value_lost:
  "fst (caller_call value_set caller0 (42::int) memory0) = Inr ()
   \<and> value_v (slots (snd (caller_call value_set caller0 42 memory0)) 0) \<noteq> 42
   \<and> strand (snd (caller_call value_set caller0 42 memory0)) 0 = []
   \<and> fst (value_get 0 (snd (caller_call value_set caller0 42 memory0))) = Finished (Inr 0)"
  by (simp add: caller_call_def caller0_def memory0_def new_value_def value_set_def
      value_get_def)

text \<open>
  Claim C10. A caller from \<open>get_caller()\<close> has no slot: invoking it raises the logic
  error "Incorrect coroutine caller: Value not bound" and leaves the memory as it was,
  so nothing is posted to the strand and the coroutine is not resumed. Once
  \<open>bind_value\<close> has been called, the same invocation returns normally.
\<close>

theorem unbound_caller_raises:
  assumes "get_caller_unbound ctx m = Inr c"
  shows "caller_call set_fn c args m
           = (Inl (Logic_Error ''Incorrect coroutine caller: Value not bound''), m)
       \<and> fst (caller_call set_fn (bind_value c p) args m) = Inr ()"
proof -
  from assms have "value_ptr c = None"
    by (auto simp: get_caller_unbound_def split: sum.splits)
  then show ?thesis
    by (simp add: caller_call_def bind_value_def)
qed

theorem unbound_caller_raises_witness:
  "get_caller_unbound \<lparr> weak_coro_data_ptr = 0, ec_ptr = None \<rparr> memory0
     = Inr \<lparr> coro_data_ptr = 0, value_ptr = None \<rparr>
   \<and> caller_call value_set \<lparr> coro_data_ptr = 0, value_ptr = None \<rparr> (42::int) memory0
       = (Inl (Logic_Error ''Incorrect coroutine caller: Value not bound''), memory0)
   \<and> fst (caller_call value_set (bind_value \<lparr> coro_data_ptr = 0, value_ptr = None \<rparr> 0) 42 memory0)
       = Inr ()"
proof -
  have h: "get_caller_unbound \<lparr> weak_coro_data_ptr = 0, ec_ptr = None \<rparr> memory0
     = Inr \<lparr> coro_data_ptr = 0, value_ptr = None \<rparr>"
    by (simp add: get_caller_unbound_def lock_def memory0_def)
  from unbound_caller_raises [OF h, of value_set 42 0] h show ?thesis by simp
qed

section \<open>The error-code slots\<close>

text \<open>
  When the coroutine arrives first, the error-code slot does what its comment says: the
  handler's code goes to the external error code if the slot's handle has one, and then
  \<open>get\<close> returns normally whatever the code is; otherwise it goes to \<open>ec_\<close>, and \<open>get\<close>
  raises the system error exactly when the code is not 0.
\<close>

lemma value_ec_coroutine_first:
  assumes "value_ptr c = Some p"
    and "ready (slots m p) = 0" and "ec (slots m p) = 0"
    and "coro_alive m (weak_coro_data_ptr (slot_context (slots m p)))"
  shows "\<exists>k m1 m2.
           value_ec_get p m = (Yielded k, m1)
         \<and> caller_call value_ec_set c (e, x) m1 = (Inr (), m2)
         \<and> (case ec_ptr (slot_context (slots m p)) of
               Some a \<Rightarrow> error_codes m2 a = e \<and> ec (slots m2 p) = 0 \<and> k m2 = Inr x
             | None \<Rightarrow> error_codes m2 = error_codes m \<and> ec (slots m2 p) = e
                 \<and> k m2 = (if e \<noteq> 0 then Inl (System_Error e) else Inr x))"
proof -
  let ?v1 = "(slots m p)\<lparr>ready := 1\<rparr>"
  let ?m1 = "m\<lparr>slots := (slots m)(p := ?v1)\<rparr>"
  let ?k = "\<lambda>m'. value_ec_finish (slots m' p)"
  have g: "value_ec_get p m = (Yielded ?k, ?m1)"
    using assms(2,4) by (simp add: value_ec_get_def lock_def)
  show ?thesis
  proof (cases "ec_ptr (slot_context (slots m p))")
    case None
    let ?m2 = "continue (coro_data_ptr c)
                 (?m1\<lparr>slots := (slots ?m1)(p := ?v1\<lparr>ready := 2, ec := e, value_v := x\<rparr>)\<rparr>)"
    have s: "caller_call value_ec_set c (e, x) ?m1 = (Inr (), ?m2)"
      using None by (simp add: caller_call_def assms(1) value_ec_set_def best_ec_def)
    show ?thesis
      by (rule exI [of _ ?k], rule exI [of _ ?m1], rule exI [of _ ?m2])
        (simp add: g s None continue_def coro_start_def value_ec_finish_def)
  next
    case (Some a)
    let ?m2 = "continue (coro_data_ptr c)
                 (?m1\<lparr>error_codes := (error_codes ?m1)(a := e),
                       slots := (slots ?m1)(p := ?v1\<lparr>ready := 2, value_v := x\<rparr>)\<rparr>)"
    have s: "caller_call value_ec_set c (e, x) ?m1 = (Inr (), ?m2)"
      using Some by (simp add: caller_call_def assms(1) value_ec_set_def best_ec_def)
    show ?thesis
      by (rule exI [of _ ?k], rule exI [of _ ?m1], rule exI [of _ ?m2])
        (simp add: g s Some continue_def coro_start_def value_ec_finish_def assms(3))
  qed
qed

text \<open>
  The completion-token path. The handler is a caller made from the handle, and the slot
  is made by \<open>async_result\<close> from the caller's \<open>get_context()\<close>: an external error code
  installed in the handle with \<open>operator[]\<close> does not reach the slot.
\<close>

lemma async_result_drops_ec_ptr:
  assumes "get_caller_unbound (subscript ctx e) m = Inr c"
  shows "ec_ptr (slot_context (slots (snd (async_result (new_value_ec init) p c m)) p)) = None"
  by (simp add: async_result_def new_value_ec_def get_context_def)

text \<open>
  A memory as \<open>memory0\<close>, with error-code slots: the slot at address 0 has no external
  error code, every other slot has the one at address 7.
\<close>

definition memory_ec :: "int value_ec_slot memory" where
  "memory_ec =
     \<lparr> coro_alive = (\<lambda>a. a = 0), strand = (\<lambda>a. []), error_codes = (\<lambda>a. 0),
       slots = (\<lambda>a. new_value_ec 0
                  \<lparr> weak_coro_data_ptr = 0, ec_ptr = (if a = 0 then None else Some 7) \<rparr>) \<rparr>"

text \<open>
  Claim C8 at a handler that completes, with the error code 5, before the coroutine has
  called \<open>get\<close>. The code is stored nowhere: with no external error code (slot 0),
  \<open>ec_\<close> stays 0 and \<open>get\<close> returns normally instead of raising; with the external
  error code at address 7 (slot 1), that error code stays 0.
\<close>

theorem error_code_lost_when_handler_first:
  "fst (caller_call value_ec_set \<lparr> coro_data_ptr = 0, value_ptr = Some 0 \<rparr> (5, 42) memory_ec) = Inr ()
   \<and> ec (slots (snd (caller_call value_ec_set \<lparr> coro_data_ptr = 0, value_ptr = Some 0 \<rparr>
                       (5, 42) memory_ec)) 0) = 0
   \<and> fst (value_ec_get 0 (snd (caller_call value_ec_set \<lparr> coro_data_ptr = 0, value_ptr = Some 0 \<rparr>
                       (5, 42) memory_ec))) = Finished (Inr 0)
   \<and> error_codes (snd (caller_call value_ec_set \<lparr> coro_data_ptr = 0, value_ptr = Some 1 \<rparr>
                       (5, 42) memory_ec)) 7 = 0
   \<and> fst (value_ec_get 1 (snd (caller_call value_ec_set \<lparr> coro_data_ptr = 0, value_ptr = Some 1 \<rparr>
                       (5, 42) memory_ec))) = Finished (Inr 0)"
  by (simp add: caller_call_def memory_ec_def new_value_ec_def value_ec_set_def
      value_ec_get_def value_ec_finish_def)

end
